theory Spec2Isabelle
  imports Main "HOL-Library.Sublist"
begin

section \<open>JavaScript values, the object store and JSON documents\<close>

text \<open>
  The logger handles values of type \<^verbatim>\<open>any\<close>. A value is a primitive or a reference to an
  object; objects live in a store (the heap), a list of cells addressed by their index, so that
  the in-place assignment \<^verbatim>\<open>obj[key] = '***REDACTED***'\<close> of \<^verbatim>\<open>sanitizeData\<close> and the
  sharing between a value and its copy are visible. Numbers are the integers together with the
  three non-finite values (fractions and the sign of zero are left out); \<^verbatim>\<open>Func\<close> stands for
  any function value, and a symbol is known by its description.
\<close>

datatype jsnum = Fin int | NaN | PosInf | NegInf

type_synonym addr = nat

datatype jsval =
    Undefined
  | Null
  | Bool bool
  | Num jsnum
  | Str string
  | BigInt int
  | Func
  | Symbol string
  | Ref addr

text \<open>The body of a request or response: none, a text, or a stream whose reading fails.\<close>

datatype body_src = NoBody | BodyText string | BodyUnreadable

text \<open>
  A cell is a plain object (its own enumerable properties, in key order), an array, an
  \<^verbatim>\<open>Error\<close> instance (message and stack: not enumerable), a \<^verbatim>\<open>Request\<close> instance (url,
  method, header entries, the value of its \<^verbatim>\<open>body\<close> property: a stream or null), a
  \<^verbatim>\<open>Response\<close> instance (status, header entries, body), or another host object without
  enumerable properties (a stream).
\<close>

datatype cell =
    HObj "(string \<times> jsval) list"
  | HArr "jsval list"
  | HError string string
  | HRequest string string "(string \<times> string) list" jsval
  | HResponse int "(string \<times> string) list" body_src
  | HOpaque

type_synonym heap = "cell list"

text \<open>A JSON document: what a JSON text denotes.\<close>

datatype json =
    JNull
  | JBool bool
  | JNum int
  | JStr string
  | JArr "json list"
  | JObj "(string \<times> json) list"

text \<open>Exceptions: the built-in error kinds, a file-system error, or any thrown value.\<close>

datatype exn =
    TypeError string
  | SyntaxError string
  | RangeError string
  | SystemError string
  | Thrown jsval

fun truthy :: "jsval \<Rightarrow> bool" where
  "truthy Undefined = False"
| "truthy Null = False"
| "truthy (Bool b) = b"
| "truthy (Num n) = (n \<noteq> Fin 0 \<and> n \<noteq> NaN)"
| "truthy (Str s) = (s \<noteq> [])"
| "truthy (BigInt i) = (i \<noteq> 0)"
| "truthy Func = True"
| "truthy (Symbol s) = True"
| "truthy (Ref a) = True"

fun typeof :: "jsval \<Rightarrow> string" where
  "typeof Undefined = ''undefined''"
| "typeof Null = ''object''"
| "typeof (Bool b) = ''boolean''"
| "typeof (Num n) = ''number''"
| "typeof (Str s) = ''string''"
| "typeof (BigInt i) = ''bigint''"
| "typeof Func = ''function''"
| "typeof (Symbol s) = ''symbol''"
| "typeof (Ref a) = ''object''"

subsection \<open>\<^verbatim>\<open>JSON.stringify\<close>: from the store to a document\<close>

text \<open>
  The traversal of \<^verbatim>\<open>JSON.stringify(value)\<close>, producing the document whose text it returns:
  \<^verbatim>\<open>undefined\<close>, functions and symbols have no serialization (the result \<^verbatim>\<open>None\<close>; inside an object
  the property is left out, inside an array it becomes \<^verbatim>\<open>null\<close>), a non-finite number becomes
  \<^verbatim>\<open>null\<close>, a BigInt throws, and so does an object met again while it is still being
  serialized (the stack \<open>stk\<close> of the objects being serialized: a cycle). An address beyond
  the end of the store stands for no object of the program and is refused in the same way.
  No object of the store has a \<^verbatim>\<open>toJSON\<close> method or an accessor property, which
  \<^verbatim>\<open>JSON.stringify\<close> would call.
\<close>

function serialize :: "heap \<Rightarrow> addr list \<Rightarrow> jsval \<Rightarrow> exn + json option"
  and serialize_props :: "heap \<Rightarrow> addr list \<Rightarrow> (string \<times> jsval) list \<Rightarrow> exn + (string \<times> json) list"
  and serialize_elems :: "heap \<Rightarrow> addr list \<Rightarrow> jsval list \<Rightarrow> exn + json list"
where
  "serialize h stk Undefined = Inr None"
| "serialize h stk Func = Inr None"
| "serialize h stk Null = Inr (Some JNull)"
| "serialize h stk (Bool b) = Inr (Some (JBool b))"
| "serialize h stk (Num n) = Inr (Some (case n of Fin i \<Rightarrow> JNum i | _ \<Rightarrow> JNull))"
| "serialize h stk (Str s) = Inr (Some (JStr s))"
| "serialize h stk (BigInt i) = Inl (TypeError ''Do not know how to serialize a BigInt'')"
| "serialize h stk (Ref a) =
     (if a \<in> set stk \<or> length h \<le> a
      then Inl (TypeError ''Converting circular structure to JSON'')
      else (case h ! a of
              HObj props \<Rightarrow>
                (case serialize_props h (a # stk) props of
                   Inl e \<Rightarrow> Inl e
                 | Inr ps \<Rightarrow> Inr (Some (JObj ps)))
            | HArr vs \<Rightarrow>
                (case serialize_elems h (a # stk) vs of
                   Inl e \<Rightarrow> Inl e
                 | Inr ds \<Rightarrow> Inr (Some (JArr ds)))
            | _ \<Rightarrow> Inr (Some (JObj []))))"
| "serialize_props h stk [] = Inr []"
| "serialize_props h stk (p # ps) =
     (case serialize h stk (snd p) of
        Inl e \<Rightarrow> Inl e
      | Inr r \<Rightarrow>
          (case serialize_props h stk ps of
             Inl e \<Rightarrow> Inl e
           | Inr rest \<Rightarrow> Inr (case r of None \<Rightarrow> rest | Some d \<Rightarrow> (fst p, d) # rest)))"
| "serialize_elems h stk [] = Inr []"
| "serialize_elems h stk (v # vs) =
     (case serialize h stk v of
        Inl e \<Rightarrow> Inl e
      | Inr r \<Rightarrow>
          (case serialize_elems h stk vs of
             Inl e \<Rightarrow> Inl e
           | Inr rest \<Rightarrow> Inr ((case r of None \<Rightarrow> JNull | Some d \<Rightarrow> d) # rest)))"
| "serialize h stk (Symbol s) = Inr None"
  by pat_completeness auto

definition unvisited :: "heap \<Rightarrow> addr list \<Rightarrow> nat" where
  "unvisited h stk = card ({..<length h} - set stk)"

lemma unvisited_push:
  "a \<notin> set stk \<Longrightarrow> a < length h \<Longrightarrow> unvisited h (a # stk) < unvisited h stk"
  unfolding unvisited_def
  by (rule psubset_card_mono) auto

termination serialize
  apply (relation "inv_image (less_than <*lex*> less_than)
    (\<lambda>x. case x of
        Inl (h, stk, v) \<Rightarrow> (unvisited h stk, 0)
      | Inr (Inl (h, stk, ps)) \<Rightarrow> (unvisited h stk, Suc (length ps))
      | Inr (Inr (h, stk, vs)) \<Rightarrow> (unvisited h stk, Suc (length vs)))")
  apply (auto simp: unvisited_push)
  done

subsection \<open>\<^verbatim>\<open>JSON.parse\<close>: from a document to fresh objects in the store\<close>

text \<open>
  Defining a property: an existing key keeps its place and takes the new value, a new key
  goes last (the reordering of integer-like keys is left out).
\<close>

fun define_prop :: "(string \<times> 'v) list \<Rightarrow> string \<Rightarrow> 'v \<Rightarrow> (string \<times> 'v) list" where
  "define_prop [] k v = [(k, v)]"
| "define_prop (p # ps) k v = (if fst p = k then (k, v) # ps else p # define_prop ps k v)"

text \<open>
  \<^verbatim>\<open>JSON.parse\<close> builds every array and object of the document as a new cell at the end of
  the store, members first. A key that occurs twice in the document is defined twice.
\<close>

fun parse_doc :: "json \<Rightarrow> heap \<Rightarrow> jsval \<times> heap"
  and parse_elems :: "json list \<Rightarrow> heap \<Rightarrow> jsval list \<times> heap"
  and parse_props :: "(string \<times> json) list \<Rightarrow> heap \<Rightarrow> (string \<times> jsval) list
      \<Rightarrow> (string \<times> jsval) list \<times> heap"
where
  "parse_doc JNull h = (Null, h)"
| "parse_doc (JBool b) h = (Bool b, h)"
| "parse_doc (JNum i) h = (Num (Fin i), h)"
| "parse_doc (JStr s) h = (Str s, h)"
| "parse_doc (JArr ds) h =
     (case parse_elems ds h of (vs, h') \<Rightarrow> (Ref (length h'), h' @ [HArr vs]))"
| "parse_doc (JObj ms) h =
     (case parse_props ms h [] of (props, h') \<Rightarrow> (Ref (length h'), h' @ [HObj props]))"
| "parse_elems [] h = ([], h)"
| "parse_elems (d # ds) h =
     (case parse_doc d h of (v, h1) \<Rightarrow>
        (case parse_elems ds h1 of (vs, h2) \<Rightarrow> (v # vs, h2)))"
| "parse_props [] h acc = (acc, h)"
| "parse_props (m # ms) h acc =
     (case parse_doc (snd m) h of (v, h1) \<Rightarrow> parse_props ms h1 (define_prop acc (fst m) v))"

subsection \<open>Property access on the store\<close>

text \<open>
  The own keys of an object as \<^verbatim>\<open>Object.keys\<close> lists them. The keys of an array are its
  indices (as strings, the decimal numerals, so none of them is one of the sensitive names).
\<close>

datatype pkey = Name string | Index nat

fun object_keys :: "cell \<Rightarrow> pkey list" where
  "object_keys (HObj props) = map (\<lambda>p. Name (fst p)) props"
| "object_keys (HArr vs) = map Index [0..<length vs]"
| "object_keys c = []"

fun cell_get :: "cell \<Rightarrow> pkey \<Rightarrow> jsval" where
  "cell_get (HObj props) (Name k) = (case map_of props k of None \<Rightarrow> Undefined | Some v \<Rightarrow> v)"
| "cell_get (HArr vs) (Index i) = (if i < length vs then vs ! i else Undefined)"
| "cell_get c k = Undefined"

fun cell_set :: "cell \<Rightarrow> pkey \<Rightarrow> jsval \<Rightarrow> cell" where
  "cell_set (HObj props) (Name k) v = HObj (define_prop props k v)"
| "cell_set (HArr vs) (Index i) v =
     (if i < length vs then HArr (vs[i := v])
      else HArr (vs @ replicate (i - length vs) Undefined @ [v]))"
| "cell_set c k v = c"

definition get_prop :: "heap \<Rightarrow> addr \<Rightarrow> pkey \<Rightarrow> jsval" where
  "get_prop h a k = (if a < length h then cell_get (h ! a) k else Undefined)"

definition set_prop :: "heap \<Rightarrow> addr \<Rightarrow> pkey \<Rightarrow> jsval \<Rightarrow> heap" where
  "set_prop h a k v = (if a < length h then h[a := cell_set (h ! a) k v] else h)"

definition keys_of :: "heap \<Rightarrow> addr \<Rightarrow> pkey list" where
  "keys_of h a = (if a < length h then object_keys (h ! a) else [])"

section \<open>The sanitizer (\<^verbatim>\<open>src/utils/apiLogger.ts\<close>)\<close>

definition REDACTED :: string where
  "REDACTED = ''***REDACTED***''"

definition is_sensitive :: "string \<Rightarrow> bool" where
  "is_sensitive key \<longleftrightarrow>
     key = ''api_key'' \<or> key = ''apiKey'' \<or> key = ''authorization'' \<or>
     key = ''Authorization'' \<or> key = ''token'' \<or> key = ''password'' \<or> key = ''key''"

fun sensitive_key :: "pkey \<Rightarrow> bool" where
  "sensitive_key (Name k) = is_sensitive k"
| "sensitive_key (Index i) = False"

text \<open>
  The inner function \<^verbatim>\<open>sanitizeObject\<close> recurses through the store and assigns in place. On
  a store with a cycle it would recurse for ever, so the model counts the nesting of the calls
  down from a bound: \<^verbatim>\<open>None\<close> is a recursion deeper than the bound.
\<close>

fun sanitizeObject :: "nat \<Rightarrow> heap \<Rightarrow> jsval \<Rightarrow> heap option"
  and sanitizeKeys :: "nat \<Rightarrow> heap \<Rightarrow> addr \<Rightarrow> pkey list \<Rightarrow> heap option"
where
  "sanitizeObject 0 h obj = None"
| "sanitizeObject (Suc n) h obj =
     (if \<not> truthy obj \<or> typeof obj \<noteq> ''object'' then Some h
      else (case obj of Ref a \<Rightarrow> sanitizeKeys n h a (keys_of h a) | _ \<Rightarrow> Some h))"
| "sanitizeKeys n h a [] = Some h"
| "sanitizeKeys n h a (key # keys) =
     (if sensitive_key key then sanitizeKeys n (set_prop h a key (Str REDACTED)) a keys
      else if typeof (get_prop h a key) = ''object'' \<and> get_prop h a key \<noteq> Null then
        (case sanitizeObject n h (get_prop h a key) of
           None \<Rightarrow> None
         | Some h' \<Rightarrow> sanitizeKeys n h' a keys)
      else sanitizeKeys n h a keys)"

text \<open>
  \<^verbatim>\<open>sanitizeData\<close>. The text between \<^verbatim>\<open>JSON.stringify\<close> and \<^verbatim>\<open>JSON.parse\<close> is
  represented by its document; \<^verbatim>\<open>JSON.parse(undefined)\<close> throws a SyntaxError. The bound on
  the nesting of \<^verbatim>\<open>sanitizeObject\<close> is the number of cells of the store: a deeper recursion
  enters some object twice and so never ends (the engine's stack overflow, a RangeError).
  The result is the returned value and the store after the call.
\<close>

definition sanitize_try :: "heap \<Rightarrow> jsval \<Rightarrow> (exn \<times> heap) + (jsval \<times> heap)" where
  "sanitize_try h data =
     (case serialize h [] data of
        Inl e \<Rightarrow> Inl (e, h)
      | Inr None \<Rightarrow> Inl (SyntaxError ''undefined is not valid JSON'', h)
      | Inr (Some d) \<Rightarrow>
          (case parse_doc d h of (sanitized, h1) \<Rightarrow>
             (case sanitizeObject (Suc (length h1)) h1 sanitized of
                None \<Rightarrow> Inl (RangeError ''Maximum call stack size exceeded'', h1)
              | Some h2 \<Rightarrow> Inr (sanitized, h2))))"

definition could_not_sanitize :: cell where
  "could_not_sanitize = HObj [(''sanitized'', Str ''[Object could not be safely sanitized]'')]"

definition sanitizeData :: "heap \<Rightarrow> jsval \<Rightarrow> jsval \<times> heap" where
  "sanitizeData h data =
     (if \<not> truthy data then (data, h)
      else (case sanitize_try h data of
              Inr r \<Rightarrow> r
            | Inl (e, h') \<Rightarrow>
                (if typeof data = ''object'' then (Ref (length h'), h' @ [could_not_sanitize])
                 else (data, h'))))"

section \<open>Strings, numbers and the platform\<close>

text \<open>
  Strings are lists of characters. \<^verbatim>\<open>includes\<close>, \<^verbatim>\<open>startsWith\<close> and \<^verbatim>\<open>endsWith\<close>
  are \<^const>\<open>sublist\<close>, \<^const>\<open>prefix\<close> and \<^const>\<open>suffix\<close> with the arguments swapped.
  Case conversion and white space are those of ASCII.
\<close>

definition str_includes :: "string \<Rightarrow> string \<Rightarrow> bool" where
  "str_includes s sub = sublist sub s"

definition startsWith :: "string \<Rightarrow> string \<Rightarrow> bool" where
  "startsWith s pre = prefix pre s"

definition endsWith :: "string \<Rightarrow> string \<Rightarrow> bool" where
  "endsWith s suf = suffix suf s"

definition upper_chars :: string where
  "upper_chars = ''ABCDEFGHIJKLMNOPQRSTUVWXYZ''"

definition lower_chars :: string where
  "lower_chars = ''abcdefghijklmnopqrstuvwxyz''"

definition toLowerCase :: "string \<Rightarrow> string" where
  "toLowerCase s =
     map (\<lambda>c. case map_of (zip upper_chars lower_chars) c of None \<Rightarrow> c | Some l \<Rightarrow> l) s"

definition toUpperCase :: "string \<Rightarrow> string" where
  "toUpperCase s =
     map (\<lambda>c. case map_of (zip lower_chars upper_chars) c of None \<Rightarrow> c | Some u \<Rightarrow> u) s"

definition is_space :: "char \<Rightarrow> bool" where
  "is_space c \<longleftrightarrow> c \<in> set [CHR '' '', CHR 0x09, CHR 0x0A, CHR 0x0B, CHR 0x0C, CHR 0x0D]"

definition trim :: "string \<Rightarrow> string" where
  "trim s = rev (dropWhile is_space (rev (dropWhile is_space s)))"

text \<open>\<^verbatim>\<open>s.split(c)\<close> for a one-character separator: one more piece than separators.\<close>

fun split_on :: "char \<Rightarrow> string \<Rightarrow> string list" where
  "split_on c [] = [[]]"
| "split_on c (x # xs) =
     (if x = c then [] # split_on c xs
      else (case split_on c xs of p # ps \<Rightarrow> (x # p) # ps | [] \<Rightarrow> [[x]]))"

definition NL :: string where
  "NL = [CHR 0x0A]"

definition replace_newlines :: "string \<Rightarrow> string \<Rightarrow> string" where
  "replace_newlines s by = concat (map (\<lambda>c. if c = CHR 0x0A then by else [c]) s)"

definition digit_chars :: string where
  "digit_chars = ''0123456789''"

function show_nat :: "nat \<Rightarrow> string" where
  "show_nat n = (if n < 10 then [digit_chars ! n] else show_nat (n div 10) @ [digit_chars ! (n mod 10)])"
  by pat_completeness auto
termination
  by (relation "measure id") auto

declare show_nat.simps [simp del]

definition show_int :: "int \<Rightarrow> string" where
  "show_int i = (if i < 0 then CHR ''-'' # show_nat (nat (- i)) else show_nat (nat i))"

definition padStart2 :: "string \<Rightarrow> string" where
  "padStart2 s = replicate (2 - length s) CHR ''0'' @ s"

text \<open>
  \<^verbatim>\<open>parseInt(s)\<close> without a radix: leading white space, a sign, the prefix \<^verbatim>\<open>0x\<close> for
  base 16, then the longest run of digits; no digit gives \<^verbatim>\<open>NaN\<close>.
\<close>

definition digit_value :: "char \<Rightarrow> nat option" where
  "digit_value c =
     map_of (zip ''0123456789abcdef'' [0..<16] @ zip ''ABCDEF'' [10..<16]) c"

definition is_digit :: "nat \<Rightarrow> char \<Rightarrow> bool" where
  "is_digit radix c = (case digit_value c of None \<Rightarrow> False | Some v \<Rightarrow> v < radix)"

definition digits_value :: "nat \<Rightarrow> string \<Rightarrow> nat" where
  "digits_value radix ds = foldl (\<lambda>acc c. acc * radix + the (digit_value c)) 0 ds"

definition parseInt :: "string \<Rightarrow> jsnum" where
  "parseInt s =
     (let s1 = dropWhile is_space s;
          neg = startsWith s1 ''-'';
          s2 = (if startsWith s1 ''-'' \<or> startsWith s1 ''+'' then tl s1 else s1);
          hex = startsWith s2 ''0x'' \<or> startsWith s2 ''0X'';
          radix = (if hex then 16 else 10);
          s3 = (if hex then drop 2 s2 else s2);
          ds = takeWhile (is_digit radix) s3
      in if ds = [] then NaN
         else Fin (if neg then - int (digits_value radix ds) else int (digits_value radix ds)))"

subsection \<open>URLs\<close>

record URL =
  hostname :: string
  pathname :: string
  search :: string

text \<open>
  A model of \<^verbatim>\<open>new URL(s)\<close> for the absolute form
  \<^verbatim>\<open>scheme://userinfo@host:port/path?query#fragment\<close>: the host in lower case, the path
  \<^verbatim>\<open>/\<close> when empty, the query with its question mark (empty when nothing follows it). Any other
  text is rejected (\<^verbatim>\<open>None\<close>: the TypeError of the constructor). The functions below take the
  constructor from the platform, so they do not depend on this model; it serves to evaluate
  them on concrete URLs.
\<close>

definition is_alpha :: "char \<Rightarrow> bool" where
  "is_alpha c \<longleftrightarrow> c \<in> set upper_chars \<or> c \<in> set lower_chars"

definition scheme_char :: "char \<Rightarrow> bool" where
  "scheme_char c \<longleftrightarrow> is_alpha c \<or> c \<in> set digit_chars \<or> c \<in> set ''+-.''"

definition parse_url :: "string \<Rightarrow> URL option" where
  "parse_url s =
     (let scheme = takeWhile (\<lambda>c. c \<noteq> CHR '':'') s;
          rest = drop (length scheme) s;
          r1 = drop 3 rest;
          authority = takeWhile (\<lambda>c. c \<notin> set ''/?#'') r1;
          r2 = drop (length authority) r1;
          hostport = rev (takeWhile (\<lambda>c. c \<noteq> CHR ''@'') (rev authority));
          host = takeWhile (\<lambda>c. c \<noteq> CHR '':'') hostport;
          path = takeWhile (\<lambda>c. c \<notin> set ''?#'') r2;
          query = takeWhile (\<lambda>c. c \<noteq> CHR ''#'') (drop (length path) r2)
      in if scheme = [] \<or> \<not> is_alpha (hd scheme) \<or> \<not> list_all scheme_char scheme
            \<or> \<not> startsWith rest ''://'' \<or> host = []
         then None
         else Some \<lparr> hostname = toLowerCase host,
                     pathname = (if path = [] then ''/'' else path),
                     search = (if query = ''?'' then [] else query) \<rparr>)"

subsection \<open>The platform\<close>

text \<open>
  What the program takes from its platform and its libraries, as parameters: the URL
  constructor; the text of a JSON document (\<^verbatim>\<open>JSON.stringify\<close> writes the text of the document
  that \<^const>\<open>serialize\<close> computes), its indented text (\<^verbatim>\<open>JSON.stringify(v, null, 2)\<close>) and
  \<^verbatim>\<open>JSON.parse\<close> on a text (\<^verbatim>\<open>None\<close>: a SyntaxError); the conversion of a string to a
  number; the styles of \<^verbatim>\<open>chalk\<close>, by name; the clock (milliseconds) as an ISO string, as
  a local date (year, month from 0, day) and \<^verbatim>\<open>new Date(v).toLocaleString()\<close>; the
  \<open>n\<close>-th result of \<^verbatim>\<open>randomUUID()\<close>; a size in KB with two decimals; the cache
  directory of \<^verbatim>\<open>envPaths('claude-cli')\<close> and the working directory of the process.
\<close>

record platform =
  new_URL :: "string \<Rightarrow> URL option"
  JSON_text :: "json \<Rightarrow> string"
  JSON_pretty :: "json \<Rightarrow> string"
  JSON_parse :: "string \<Rightarrow> json option"
  Number_of :: "string \<Rightarrow> jsnum"
  chalk :: "string \<Rightarrow> string \<Rightarrow> string"
  toISOString :: "int \<Rightarrow> string"
  local_date :: "int \<Rightarrow> nat \<times> nat \<times> nat"
  toLocaleString :: "json \<Rightarrow> string"
  date_toLocaleString :: "int \<Rightarrow> string"
  randomUUID :: "nat \<Rightarrow> string"
  toFixed2_KB :: "nat \<Rightarrow> string"
  cache_dir :: string
  cwd :: string

text \<open>\<^verbatim>\<open>path.join\<close> of two segments that need no normalisation.\<close>

definition path_join :: "string \<Rightarrow> string \<Rightarrow> string" where
  "path_join d f = d @ ''/'' @ f"

definition getProjectDir :: "string \<Rightarrow> string" where
  "getProjectDir dir =
     map (\<lambda>c. if is_alpha c \<or> c \<in> set digit_chars then c else CHR ''-'') dir"

definition API_LOGS_PATH :: "platform \<Rightarrow> string" where
  "API_LOGS_PATH P = path_join (path_join (cache_dir P) (getProjectDir (cwd P))) ''api-logs''"

subsection \<open>Service classification (\<^verbatim>\<open>getServiceFromUrl\<close>)\<close>

definition getServiceFromUrl :: "platform \<Rightarrow> string \<Rightarrow> exn + string" where
  "getServiceFromUrl P u =
     (case new_URL P u of
        None \<Rightarrow> Inl (TypeError ''Invalid URL'')
      | Some urlObj \<Rightarrow>
          Inr (if str_includes (hostname urlObj) ''anthropic.com'' \<or> str_includes (hostname urlObj) ''claude''
               then ''anthropic''
               else if str_includes (hostname urlObj) ''openai.com'' \<or> str_includes (hostname urlObj) ''oai''
               then ''openai''
               else if str_includes (hostname urlObj) ''anthropic-bedrock'' then ''anthropic-bedrock''
               else if str_includes (hostname urlObj) ''vertex-ai'' then ''anthropic-vertex''
               else if str_includes (hostname urlObj) ''amazonaws.com'' then ''aws''
               else if str_includes (hostname urlObj) ''google'' then ''google''
               else ''unknown''))"

section \<open>The log writer (\<^verbatim>\<open>src/utils/apiLogger.ts\<close>)\<close>

subsection \<open>The world: store, file system, console, clock\<close>

text \<open>
  The file system holds the directories that exist and the files with their full paths.
  Every operation can fail for reasons outside the program (permissions, a full disk):
  \<open>faults w op\<close> says that \<open>op\<close> throws in the world \<open>w\<close>. The console keeps the calls of
  \<^verbatim>\<open>console.error\<close>.
\<close>

record file_data =
  content :: string
  birthtime :: int

datatype fs_op =
    Mkdir string
  | Append string
  | Readdir string
  | Stat string
  | Read string
  | Unlink string

record world =
  store :: heap
  dirs :: "string list"
  files :: "(string \<times> file_data) list"
  faults :: "fs_op \<Rightarrow> bool"
  console :: "(string \<times> exn) list"
  clock :: int
  uuids :: nat

definition existsSync :: "world \<Rightarrow> string \<Rightarrow> bool" where
  "existsSync w p \<longleftrightarrow> p \<in> set (dirs w) \<or> p \<in> fst ` set (files w)"

definition mkdirSync :: "string \<Rightarrow> world \<Rightarrow> exn + world" where
  "mkdirSync p w =
     (if faults w (Mkdir p) then Inl (SystemError ''mkdir failed'')
      else Inr (w\<lparr>dirs := p # dirs w\<rparr>))"

fun append_file :: "(string \<times> file_data) list \<Rightarrow> string \<Rightarrow> string \<Rightarrow> int \<Rightarrow> (string \<times> file_data) list" where
  "append_file [] p text t = [(p, \<lparr>content = text, birthtime = t\<rparr>)]"
| "append_file (f # fs) p text t =
     (if fst f = p then (p, (snd f)\<lparr>content := content (snd f) @ text\<rparr>) # fs
      else f # append_file fs p text t)"

definition appendFileSync :: "string \<Rightarrow> string \<Rightarrow> world \<Rightarrow> exn + world" where
  "appendFileSync p text w =
     (if faults w (Append p) then Inl (SystemError ''append failed'')
      else Inr (w\<lparr>files := append_file (files w) p text (clock w)\<rparr>))"

definition console_error :: "string \<Rightarrow> exn \<Rightarrow> world \<Rightarrow> world" where
  "console_error msg e w = w\<lparr>console := console w @ [(msg, e)]\<rparr>"

subsection \<open>The path of today's log file\<close>

definition ensureApiLogsDirectoryExists :: "platform \<Rightarrow> world \<Rightarrow> exn + world" where
  "ensureApiLogsDirectoryExists P w =
     (if \<not> existsSync w (API_LOGS_PATH P) then mkdirSync (API_LOGS_PATH P) w else Inr w)"

definition getCurrentDate :: "platform \<Rightarrow> world \<Rightarrow> string" where
  "getCurrentDate P w =
     (case local_date P (clock w) of (year, month, day) \<Rightarrow>
        show_nat year @ ''-'' @ padStart2 (show_nat (month + 1)) @ ''-'' @ padStart2 (show_nat day))"

definition getApiLogFilePath :: "platform \<Rightarrow> world \<Rightarrow> exn + (string \<times> world)" where
  "getApiLogFilePath P w =
     (case ensureApiLogsDirectoryExists P w of
        Inl e \<Rightarrow> Inl e
      | Inr w' \<Rightarrow>
          Inr (path_join (API_LOGS_PATH P) (''api-log-'' @ getCurrentDate P w' @ ''.jsonl''), w'))"

subsection \<open>\<^verbatim>\<open>logApiCall\<close>\<close>

text \<open>The argument object of \<^verbatim>\<open>logApiCall\<close>; an absent property is \<^verbatim>\<open>undefined\<close>.\<close>

record log_args =
  url :: jsval
  http_method :: jsval
  headers :: jsval
  body :: jsval
  response :: jsval
  responseBody :: jsval
  statusCode :: jsval
  error :: jsval
  durationMs :: jsval
  service :: jsval

text \<open>\<^verbatim>\<open>Object.fromEntries\<close> on header entries.\<close>

definition from_entries :: "(string \<times> string) list \<Rightarrow> (string \<times> jsval) list" where
  "from_entries es = foldl (\<lambda>acc e. define_prop acc (fst e) (Str (snd e))) [] es"

text \<open>
  \<^verbatim>\<open>response ? Object.fromEntries([...response.headers.entries()]) : undefined\<close>: a truthy
  value without headers throws a TypeError.
\<close>

definition response_headers :: "heap \<Rightarrow> jsval \<Rightarrow> exn + (jsval \<times> heap)" where
  "response_headers h r =
     (if \<not> truthy r then Inr (Undefined, h)
      else (case r of
              Ref a \<Rightarrow>
                (if a < length h then
                   (case h ! a of
                      HResponse st hs b \<Rightarrow> Inr (Ref (length h), h @ [HObj (from_entries hs)])
                    | HRequest u m hs b \<Rightarrow> Inr (Ref (length h), h @ [HObj (from_entries hs)])
                    | _ \<Rightarrow> Inl (TypeError ''Cannot read properties of undefined (reading entries)''))
                 else Inl (TypeError ''Cannot read properties of undefined (reading entries)''))
            | _ \<Rightarrow> Inl (TypeError ''Cannot read properties of undefined (reading entries)'')))"

text \<open>\<^verbatim>\<open>response ? response.status : undefined\<close>.\<close>

definition response_status :: "heap \<Rightarrow> jsval \<Rightarrow> jsval" where
  "response_status h r =
     (case r of
        Ref a \<Rightarrow>
          (if a < length h then
             (case h ! a of HResponse st hs b \<Rightarrow> Num (Fin st) | _ \<Rightarrow> Undefined)
           else Undefined)
      | _ \<Rightarrow> Undefined)"

definition instanceof_Error :: "heap \<Rightarrow> jsval \<Rightarrow> bool" where
  "instanceof_Error h v =
     (case v of
        Ref a \<Rightarrow> a < length h \<and> (case h ! a of HError m s \<Rightarrow> True | _ \<Rightarrow> False)
      | _ \<Rightarrow> False)"

text \<open>
  \<^verbatim>\<open>error ? (error instanceof Error ? { message: error.message, stack: error.stack } : error)
  : undefined\<close>.
\<close>

definition error_field :: "heap \<Rightarrow> jsval \<Rightarrow> jsval \<times> heap" where
  "error_field h e =
     (if truthy e then
        (if instanceof_Error h e then
           (case e of
              Ref a \<Rightarrow>
                (case h ! a of
                   HError m s \<Rightarrow> (Ref (length h), h @ [HObj [(''message'', Str m), (''stack'', Str s)]])
                 | _ \<Rightarrow> (e, h))
            | _ \<Rightarrow> (e, h))
         else (e, h))
      else (Undefined, h))"

text \<open>\<^verbatim>\<open>statusCode || (response ? response.status : undefined)\<close>.\<close>

definition status_field :: "heap \<Rightarrow> log_args \<Rightarrow> jsval" where
  "status_field h a =
     (if truthy (statusCode a) then statusCode a
      else if truthy (response a) then response_status h (response a) else Undefined)"

text \<open>
  The object \<^verbatim>\<open>logEntry\<close>, from the values of its computed properties. The parameter
  \<^verbatim>\<open>service\<close> defaults to \<^verbatim>\<open>'unknown'\<close> when it is undefined.
\<close>

definition log_entry ::
  "platform \<Rightarrow> log_args \<Rightarrow> world \<Rightarrow> jsval \<Rightarrow> jsval \<Rightarrow> jsval \<Rightarrow> jsval \<Rightarrow> jsval \<Rightarrow> jsval \<Rightarrow> cell" where
  "log_entry P a w hdrs bdy rhdrs rbody status err =
     HObj [(''timestamp'', Str (toISOString P (clock w))),
           (''id'', Str (randomUUID P (uuids w))),
           (''service'', if service a = Undefined then Str ''unknown'' else service a),
           (''url'', url a),
           (''method'', http_method a),
           (''headers'', hdrs),
           (''body'', bdy),
           (''responseHeaders'', rhdrs),
           (''responseBody'', rbody),
           (''statusCode'', status),
           (''error'', err),
           (''durationMs'', durationMs a)]"

text \<open>
  The last two statements of the \<^verbatim>\<open>try\<close> block: the path of the log file is computed
  (and the directory created) before the entry is serialized. A line is the text of the
  entry's document followed by a newline. An exception comes with the world at the moment it
  is thrown.
\<close>

definition write_entry :: "platform \<Rightarrow> addr \<Rightarrow> world \<Rightarrow> (exn \<times> world) + world" where
  "write_entry P logEntry w1 =
     (case getApiLogFilePath P w1 of
        Inl e \<Rightarrow> Inl (e, w1)
      | Inr (logPath, w2) \<Rightarrow>
          (case serialize (store w2) [] (Ref logEntry) of
             Inl e \<Rightarrow> Inl (e, w2)
           | Inr r \<Rightarrow>
               (case appendFileSync logPath
                       ((case r of None \<Rightarrow> ''undefined'' | Some d \<Rightarrow> JSON_text P d) @ NL) w2 of
                  Inl e \<Rightarrow> Inl (e, w2)
                | Inr w3 \<Rightarrow> Inr w3)))"

text \<open>The body of the \<^verbatim>\<open>try\<close> block.\<close>

definition logApiCall_try :: "platform \<Rightarrow> log_args \<Rightarrow> world \<Rightarrow> (exn \<times> world) + world" where
  "logApiCall_try P a w =
     (case sanitizeData (store w) (headers a) of (hdrs, h1) \<Rightarrow>
      case sanitizeData h1 (body a) of (bdy, h2) \<Rightarrow>
      case response_headers h2 (response a) of
        Inl e \<Rightarrow> Inl (e, w\<lparr>uuids := Suc (uuids w), store := h2\<rparr>)
      | Inr (rhdrs, h3) \<Rightarrow>
      case (if truthy (responseBody a) then sanitizeData h3 (responseBody a) else (Undefined, h3))
        of (rbody, h4) \<Rightarrow>
      case error_field h4 (error a) of (err, h5) \<Rightarrow>
        write_entry P (length h5)
          (w\<lparr>uuids := Suc (uuids w),
             store := h5 @ [log_entry P a w hdrs bdy rhdrs rbody (status_field h4 a) err]\<rparr>))"

text \<open>
  \<^verbatim>\<open>logApiCall\<close>: the \<^verbatim>\<open>catch\<close> clause reports the exception with \<^verbatim>\<open>console.error\<close>.
  The result has the type of a call that may throw.
\<close>

definition logApiCall :: "platform \<Rightarrow> log_args \<Rightarrow> world \<Rightarrow> (exn \<times> world) + world" where
  "logApiCall P a w =
     (case logApiCall_try P a w of
        Inr w' \<Rightarrow> Inr w'
      | Inl (e, w') \<Rightarrow> Inr (console_error ''Error writing API log:'' e w'))"

section \<open>The call interceptor and the generic wrapper\<close>

subsection \<open>\<^verbatim>\<open>loggedFetch\<close>\<close>

text \<open>
  The interceptor, from the \<^verbatim>\<open>Request\<close> it builds from its arguments. The underlying
  \<^verbatim>\<open>originalFetch\<close> is a parameter: from the request and the store it gives the thrown value
  or the address of the \<^verbatim>\<open>Response\<close>, the store after the call and the milliseconds it took.
\<close>

record request =
  req_url :: string
  req_method :: string
  req_headers :: "(string \<times> string) list"
  req_body :: body_src

type_synonym fetch_fn = "request \<Rightarrow> heap \<Rightarrow> (jsval + addr) \<times> heap \<times> int"

text \<open>
  The text of a body, parsed when it looks like JSON; the placeholder when reading or parsing
  fails.
\<close>

definition capture_text :: "platform \<Rightarrow> heap \<Rightarrow> string \<Rightarrow> string \<Rightarrow> jsval \<times> heap" where
  "capture_text P h text placeholder =
     (if text \<noteq> [] \<and> (startsWith text ''{'' \<or> startsWith text ''['') then
        (case JSON_parse P text of
           None \<Rightarrow> (Str placeholder, h)
         | Some d \<Rightarrow> parse_doc d h)
      else (Str text, h))"

definition request_body :: "platform \<Rightarrow> heap \<Rightarrow> body_src \<Rightarrow> jsval \<times> heap" where
  "request_body P h b =
     (case b of
        NoBody \<Rightarrow> (Undefined, h)
      | BodyText text \<Rightarrow> capture_text P h text ''[Could not read request body]''
      | BodyUnreadable \<Rightarrow> (Str ''[Could not read request body]'', h))"

definition response_body :: "platform \<Rightarrow> heap \<Rightarrow> jsval \<Rightarrow> jsval \<times> heap" where
  "response_body P h r =
     (case r of
        Ref a \<Rightarrow>
          (if a < length h then
             (case h ! a of
                HResponse st hs b \<Rightarrow>
                  (case b of
                     NoBody \<Rightarrow> capture_text P h [] ''[Could not read response body]''
                   | BodyText text \<Rightarrow> capture_text P h text ''[Could not read response body]''
                   | BodyUnreadable \<Rightarrow> (Str ''[Could not read response body]'', h))
              | _ \<Rightarrow> (Str ''[Could not read response body]'', h))
           else (Str ''[Could not read response body]'', h))
      | _ \<Rightarrow> (Str ''[Could not read response body]'', h))"

text \<open>The value caught for an exception: a thrown value itself, a new Error object otherwise.\<close>

definition exn_message :: "exn \<Rightarrow> string" where
  "exn_message e =
     (case e of
        TypeError m \<Rightarrow> m
      | SyntaxError m \<Rightarrow> m
      | RangeError m \<Rightarrow> m
      | SystemError m \<Rightarrow> m
      | Thrown v \<Rightarrow> (case v of Str s \<Rightarrow> s | _ \<Rightarrow> ''''))"

definition caught_value :: "exn \<Rightarrow> heap \<Rightarrow> jsval \<times> heap" where
  "caught_value e h =
     (case e of
        Thrown v \<Rightarrow> (v, h)
      | _ \<Rightarrow> (Ref (length h), h @ [HError (exn_message e) '''']))"

text \<open>
  The \<^verbatim>\<open>catch\<close> block of \<^verbatim>\<open>loggedFetch\<close>: it logs the failed call and throws the caught
  exception again. \<open>resp\<close> is the variable \<^verbatim>\<open>response\<close>, still undefined when the underlying
  call threw.
\<close>

definition loggedFetch_catch ::
  "platform \<Rightarrow> request \<Rightarrow> jsval \<Rightarrow> jsval \<Rightarrow> jsval \<Rightarrow> int \<Rightarrow> exn \<Rightarrow> world \<Rightarrow> (exn \<times> world) + (jsval \<times> world)" where
  "loggedFetch_catch P rq hdrs bdy resp startTime e w =
     (case caught_value e (store w) of (err, h) \<Rightarrow>
      case getServiceFromUrl P (req_url rq) of
        Inl e' \<Rightarrow> Inl (e', w\<lparr>store := h\<rparr>)
      | Inr svc \<Rightarrow>
          (case logApiCall P
                  \<lparr> url = Str (req_url rq), http_method = Str (req_method rq), headers = hdrs, body = bdy,
                    response = resp, responseBody = Undefined, statusCode = Undefined,
                    error = err, durationMs = Num (Fin (clock w - startTime)),
                    service = Str svc \<rparr> (w\<lparr>store := h\<rparr>) of
             Inl x \<Rightarrow> Inl x
           | Inr w' \<Rightarrow> Inl (e, w')))"

definition loggedFetch ::
  "platform \<Rightarrow> fetch_fn \<Rightarrow> request \<Rightarrow> world \<Rightarrow> (exn \<times> world) + (jsval \<times> world)" where
  "loggedFetch P originalFetch rq w =
     (let h0 = store w;
          hdrs = Ref (length h0);
          h1 = h0 @ [HObj (from_entries (req_headers rq))];
          startTime = clock w
      in case request_body P h1 (req_body rq) of (bdy, h2) \<Rightarrow>
         case originalFetch rq h2 of
           (Inl thrown, h3, ms) \<Rightarrow>
             loggedFetch_catch P rq hdrs bdy Undefined startTime (Thrown thrown)
               (w\<lparr>store := h3, clock := clock w + ms\<rparr>)
         | (Inr r, h3, ms) \<Rightarrow>
             (let w1 = w\<lparr>store := h3, clock := clock w + ms\<rparr> in
              case response_body P h3 (Ref r) of (rbody, h4) \<Rightarrow>
              case getServiceFromUrl P (req_url rq) of
                Inl e \<Rightarrow> loggedFetch_catch P rq hdrs bdy (Ref r) startTime e (w1\<lparr>store := h4\<rparr>)
              | Inr svc \<Rightarrow>
                  (case logApiCall P
                          \<lparr> url = Str (req_url rq), http_method = Str (req_method rq), headers = hdrs,
                            body = bdy, response = Ref r, responseBody = rbody,
                            statusCode = Undefined, error = Undefined,
                            durationMs = Num (Fin (clock w1 - startTime)),
                            service = Str svc \<rparr> (w1\<lparr>store := h4\<rparr>) of
                     Inl (e, w2) \<Rightarrow> loggedFetch_catch P rq hdrs bdy (Ref r) startTime e w2
                   | Inr w2 \<Rightarrow> Inr (Ref r, w2))))"

subsection \<open>\<^verbatim>\<open>withApiLogging\<close>\<close>










section \<open>The inspection command (\<^verbatim>\<open>src/commands/apilogs.ts\<close>)\<close>

subsection \<open>Parsed entries as values\<close>

text \<open>
  A parsed line is a document read as a value: nothing in it is shared or mutated. A property
  that is absent is \<^verbatim>\<open>undefined\<close> (\<^verbatim>\<open>None\<close>); only objects have the properties read here.
  The documents of the parser stand for the objects it builds, none of which has a key twice.
\<close>

fun jtruthy :: "json \<Rightarrow> bool" where
  "jtruthy JNull = False"
| "jtruthy (JBool b) = b"
| "jtruthy (JNum i) = (i \<noteq> 0)"
| "jtruthy (JStr s) = (s \<noteq> [])"
| "jtruthy (JArr xs) = True"
| "jtruthy (JObj ms) = True"

definition jget :: "json \<Rightarrow> string \<Rightarrow> json option" where
  "jget v k = (case v of JObj ms \<Rightarrow> map_of ms k | _ \<Rightarrow> None)"

text \<open>\<^verbatim>\<open>if (v.k)\<close>, \<^verbatim>\<open>v.k\<close> once it is known to be truthy, and \<^verbatim>\<open>v.k || d\<close>.\<close>

definition truthy_prop :: "json \<Rightarrow> string \<Rightarrow> bool" where
  "truthy_prop v k = (case jget v k of None \<Rightarrow> False | Some x \<Rightarrow> jtruthy x)"

definition the_prop :: "json \<Rightarrow> string \<Rightarrow> json" where
  "the_prop v k = (case jget v k of None \<Rightarrow> JNull | Some x \<Rightarrow> x)"

definition prop_or :: "json \<Rightarrow> string \<Rightarrow> json \<Rightarrow> json" where
  "prop_or v k d = (if truthy_prop v k then the_prop v k else d)"

text \<open>The conversion to a string of a template literal or of \<^verbatim>\<open>+\<close> with a string.\<close>

fun js_to_string :: "json \<Rightarrow> string"
  and join_elems :: "json list \<Rightarrow> string"
where
  "js_to_string JNull = ''null''"
| "js_to_string (JBool b) = (if b then ''true'' else ''false'')"
| "js_to_string (JNum i) = show_int i"
| "js_to_string (JStr s) = s"
| "js_to_string (JArr xs) = join_elems xs"
| "js_to_string (JObj ms) = ''[object Object]''"
| "join_elems [] = []"
| "join_elems (x # xs) =
     (case x of JNull \<Rightarrow> [] | _ \<Rightarrow> js_to_string x) @ (if xs = [] then [] else '','' @ join_elems xs)"

text \<open>The conversion to a number of a comparison with a number.\<close>

definition to_number :: "platform \<Rightarrow> json \<Rightarrow> jsnum" where
  "to_number P v =
     (case v of
        JNum i \<Rightarrow> Fin i
      | JBool b \<Rightarrow> Fin (if b then 1 else 0)
      | JNull \<Rightarrow> Fin 0
      | _ \<Rightarrow> Number_of P (js_to_string v))"

definition num_ge :: "jsnum \<Rightarrow> int \<Rightarrow> bool" where
  "num_ge n k = (case n of Fin i \<Rightarrow> k \<le> i | PosInf \<Rightarrow> True | _ \<Rightarrow> False)"

definition num_lt :: "jsnum \<Rightarrow> int \<Rightarrow> bool" where
  "num_lt n k = (case n of Fin i \<Rightarrow> i < k | NegInf \<Rightarrow> True | _ \<Rightarrow> False)"

definition num_gt :: "jsnum \<Rightarrow> int \<Rightarrow> bool" where
  "num_gt n k = (case n of Fin i \<Rightarrow> k < i | PosInf \<Rightarrow> True | _ \<Rightarrow> False)"

text \<open>\<^verbatim>\<open>Object.keys(v).length\<close>.\<close>

definition keys_count :: "json \<Rightarrow> nat" where
  "keys_count v =
     (case v of JObj ms \<Rightarrow> length ms | JArr xs \<Rightarrow> length xs | JStr s \<Rightarrow> length s | _ \<Rightarrow> 0)"

subsection \<open>\<^verbatim>\<open>formatAndDisplayLogEntry\<close>\<close>

text \<open>
  \<^verbatim>\<open>getMethodColor\<close> gives a style of \<^verbatim>\<open>chalk\<close>, here its name; \<^verbatim>\<open>method.toUpperCase()\<close>
  throws when the method is not a string.
\<close>

definition getMethodColor :: "json \<Rightarrow> exn + string" where
  "getMethodColor m =
     (case m of
        JStr s \<Rightarrow>
          Inr (if toUpperCase s = ''GET'' then ''green''
               else if toUpperCase s = ''POST'' then ''blue''
               else if toUpperCase s = ''PUT'' then ''yellow''
               else if toUpperCase s = ''DELETE'' then ''red''
               else if toUpperCase s = ''PATCH'' then ''magenta''
               else ''white'')
      | _ \<Rightarrow> Inl (TypeError ''method.toUpperCase is not a function''))"

definition getUrlPath :: "platform \<Rightarrow> json \<Rightarrow> string" where
  "getUrlPath P u =
     (case new_URL P (js_to_string u) of
        Some urlObj \<Rightarrow> pathname urlObj @ search urlObj
      | None \<Rightarrow> js_to_string u)"

text \<open>\<^verbatim>\<open>typeof body === 'string' ? body : JSON.stringify(body, null, 2)\<close>, then the indentation.\<close>

definition body_text :: "platform \<Rightarrow> json \<Rightarrow> string" where
  "body_text P b =
     replace_newlines (case b of JStr s \<Rightarrow> s | _ \<Rightarrow> JSON_pretty P b) (NL @ ''  '')"

definition format_request :: "platform \<Rightarrow> json \<Rightarrow> exn + string" where
  "format_request P entry =
     (if truthy_prop entry ''request'' then
        (let rq = the_prop entry ''request'';
             m = prop_or rq ''method'' (JStr ''UNKNOWN'');
             u = prop_or rq ''url'' (JStr '''')
         in case getMethodColor m of
              Inl e \<Rightarrow> Inl e
            | Inr color \<Rightarrow>
                Inr (chalk P ''bold'' (chalk P color (js_to_string m) @ '' '' @ getUrlPath P u @ NL)
                     @ (if truthy_prop rq ''headers'' \<and> 0 < keys_count (the_prop rq ''headers'') then
                          chalk P ''gray'' ''  Headers: ''
                          @ chalk P ''gray''
                              (replace_newlines (JSON_pretty P (the_prop rq ''headers'')) (NL @ ''  ''))
                          @ NL
                        else [])
                     @ (if truthy_prop rq ''body'' then
                          chalk P ''gray'' ''  Body: ''
                          @ chalk P ''gray'' (body_text P (the_prop rq ''body'')) @ NL
                        else [])))
      else Inr [])"

definition format_response :: "platform \<Rightarrow> json \<Rightarrow> string" where
  "format_response P entry =
     (if truthy_prop entry ''response'' then
        (let rs = the_prop entry ''response'';
             status = prop_or rs ''status'' (JNum 0);
             statusColor =
               (if num_ge (to_number P status) 400 \<and> num_lt (to_number P status) 500 then ''yellow''
                else if num_ge (to_number P status) 500 then ''red''
                else ''green'')
         in chalk P statusColor (''  Response: '' @ js_to_string status)
            @ (if truthy_prop entry ''responseTime'' then
                 chalk P ''gray'' ('' ('' @ js_to_string (the_prop entry ''responseTime'') @ ''ms)'')
               else [])
            @ NL
            @ (if truthy_prop rs ''body'' then
                 chalk P ''gray'' ''  Body: '' @ chalk P ''gray'' (body_text P (the_prop rs ''body''))
               else []))
      else [])"

definition format_error :: "platform \<Rightarrow> json \<Rightarrow> string" where
  "format_error P entry =
     (if truthy_prop entry ''error'' then
        (let er = the_prop entry ''error'' in
         chalk P ''red'' (''  Error: '' @ js_to_string (prop_or er ''message'' er) @ NL)
         @ (if truthy_prop er ''stack'' then
              chalk P ''gray'' (''  Stack: '' @ js_to_string (the_prop er ''stack''))
            else []))
      else [])"

text \<open>
  The result is used only as the left operand of \<^verbatim>\<open>+ '\n\n'\<close>, so a raw value is given as
  the string it converts to. Reading a property of \<^verbatim>\<open>null\<close> throws.
\<close>

definition formatAndDisplayLogEntry :: "platform \<Rightarrow> json \<Rightarrow> exn + string" where
  "formatAndDisplayLogEntry P entry =
     (if entry = JNull then Inl (TypeError ''Cannot read properties of null (reading raw)'')
      else if truthy_prop entry ''raw'' then Inr (js_to_string (the_prop entry ''raw''))
      else (case format_request P entry of
              Inl e \<Rightarrow> Inl e
            | Inr req \<Rightarrow>
                Inr ((if truthy_prop entry ''timestamp'' then
                        chalk P ''gray'' (''['' @ toLocaleString P (the_prop entry ''timestamp'') @ ''] '')
                      else [])
                     @ (if truthy_prop entry ''service'' then
                          chalk P ''bold.blue'' (js_to_string (the_prop entry ''service'') @ '' '')
                        else [])
                     @ req
                     @ format_response P entry
                     @ format_error P entry)))"

subsection \<open>Reading the file system\<close>

definition readFileSync :: "string \<Rightarrow> world \<Rightarrow> exn + string" where
  "readFileSync p w =
     (case map_of (files w) p of
        None \<Rightarrow> Inl (SystemError ''ENOENT: no such file'')
      | Some f \<Rightarrow> if faults w (Read p) then Inl (SystemError ''read failed'') else Inr (content f))"

definition statSync :: "string \<Rightarrow> world \<Rightarrow> exn + file_data" where
  "statSync p w =
     (case map_of (files w) p of
        None \<Rightarrow> Inl (SystemError ''ENOENT: no such file'')
      | Some f \<Rightarrow> if faults w (Stat p) then Inl (SystemError ''stat failed'') else Inr f)"

text \<open>The names of the files of a directory (directories inside it are not listed).\<close>

definition dir_entries :: "world \<Rightarrow> string \<Rightarrow> string list" where
  "dir_entries w d =
     map (\<lambda>x. drop (Suc (length d)) (fst x))
       (filter (\<lambda>x. startsWith (fst x) (d @ ''/'') \<and> CHR ''/'' \<notin> set (drop (Suc (length d)) (fst x)))
          (files w))"

definition readdirSync :: "string \<Rightarrow> world \<Rightarrow> exn + string list" where
  "readdirSync d w =
     (if d \<in> set (dirs w) \<and> \<not> faults w (Readdir d) then Inr (dir_entries w d)
      else Inl (SystemError ''readdir failed''))"

definition unlinkSync :: "string \<Rightarrow> world \<Rightarrow> exn + world" where
  "unlinkSync p w =
     (if p \<in> fst ` set (files w) \<and> \<not> faults w (Unlink p)
      then Inr (w\<lparr>files := filter (\<lambda>x. fst x \<noteq> p) (files w)\<rparr>)
      else Inl (SystemError ''unlink failed''))"

definition path_basename :: "string \<Rightarrow> string" where
  "path_basename p = rev (takeWhile (\<lambda>c. c \<noteq> CHR ''/'') (rev p))"

definition path_extname :: "string \<Rightarrow> string" where
  "path_extname p =
     (let b = path_basename p;
          e = rev (takeWhile (\<lambda>c. c \<noteq> CHR ''.'') (rev b))
      in if CHR ''.'' \<in> set b \<and> Suc (length e) < length b \<and> b \<noteq> ''..'' then CHR ''.'' # e else [])"

definition is_log_name :: "string \<Rightarrow> bool" where
  "is_log_name f \<longleftrightarrow> endsWith f ''.log'' \<or> endsWith f ''.jsonl''"

subsection \<open>\<^verbatim>\<open>viewLogFile\<close>\<close>

text \<open>
  The lines of the file: split at newlines, empty lines dropped, each line parsed, a line that
  does not parse kept as \<^verbatim>\<open>{ raw: line }\<close>.
\<close>

definition read_entries :: "platform \<Rightarrow> string \<Rightarrow> json list" where
  "read_entries P fileContent =
     map (\<lambda>line. case JSON_parse P line of Some d \<Rightarrow> d | None \<Rightarrow> JObj [(''raw'', JStr line)])
       (filter (\<lambda>line. line \<noteq> []) (split_on (CHR 0x0A) fileContent))"

text \<open>\<^verbatim>\<open>numLines > 0 ? logEntries.slice(-numLines) : logEntries\<close>.\<close>

definition entriesToShow :: "jsnum \<Rightarrow> 'a list \<Rightarrow> 'a list" where
  "entriesToShow numLines logEntries =
     (if num_gt numLines 0 then
        (case numLines of Fin i \<Rightarrow> drop (length logEntries - nat i) logEntries | _ \<Rightarrow> logEntries)
      else logEntries)"

fun render_entries :: "platform \<Rightarrow> string \<Rightarrow> json list \<Rightarrow> exn + string" where
  "render_entries P result [] = Inr result"
| "render_entries P result (entry # entries) =
     (case formatAndDisplayLogEntry P entry of
        Inl e \<Rightarrow> Inl e
      | Inr s \<Rightarrow> render_entries P (result @ s @ NL @ NL) entries)"

definition resolve_path :: "platform \<Rightarrow> string \<Rightarrow> string" where
  "resolve_path P fileNameOrPath =
     (if \<not> str_includes fileNameOrPath ''/'' then
        (if path_extname (path_join (API_LOGS_PATH P) fileNameOrPath) = []
         then path_join (API_LOGS_PATH P) fileNameOrPath @ ''.jsonl''
         else path_join (API_LOGS_PATH P) fileNameOrPath)
      else fileNameOrPath)"

definition viewLogFile_try :: "platform \<Rightarrow> string \<Rightarrow> jsnum \<Rightarrow> world \<Rightarrow> exn + string" where
  "viewLogFile_try P filePath numLines w =
     (if \<not> existsSync w filePath then Inr (chalk P ''red'' (''Log file not found: '' @ filePath))
      else (case readFileSync filePath w of
              Inl e \<Rightarrow> Inl e
            | Inr fileContent \<Rightarrow>
                (if read_entries P fileContent = [] then Inr (chalk P ''yellow'' ''Log file is empty'')
                 else render_entries P
                        (chalk P ''bold'' (''Log File: '' @ path_basename filePath @ NL @ NL))
                        (entriesToShow numLines (read_entries P fileContent)))))"

definition viewLogFile :: "platform \<Rightarrow> string \<Rightarrow> jsnum \<Rightarrow> world \<Rightarrow> string" where
  "viewLogFile P fileNameOrPath numLines w =
     (case viewLogFile_try P (resolve_path P fileNameOrPath) numLines w of
        Inr s \<Rightarrow> s
      | Inl e \<Rightarrow> chalk P ''red'' (''Error viewing log file: '' @ exn_message e))"

subsection \<open>\<^verbatim>\<open>tailLogs\<close> and \<^verbatim>\<open>listLogFiles\<close>\<close>

record listed =
  l_name :: string
  l_size :: nat
  l_created :: int
  l_path :: string

fun stat_files :: "platform \<Rightarrow> world \<Rightarrow> string list \<Rightarrow> exn + listed list" where
  "stat_files P w [] = Inr []"
| "stat_files P w (f # fs) =
     (case statSync (path_join (API_LOGS_PATH P) f) w of
        Inl e \<Rightarrow> Inl e
      | Inr st \<Rightarrow>
          (case stat_files P w fs of
             Inl e \<Rightarrow> Inl e
           | Inr rest \<Rightarrow>
               Inr (\<lparr> l_name = f, l_size = length (content st), l_created = birthtime st,
                      l_path = path_join (API_LOGS_PATH P) f \<rparr> # rest)))"

text \<open>The log files of the directory, newest first (the sort is stable).\<close>

definition log_files :: "platform \<Rightarrow> world \<Rightarrow> exn + listed list" where
  "log_files P w =
     (case readdirSync (API_LOGS_PATH P) w of
        Inl e \<Rightarrow> Inl e
      | Inr names \<Rightarrow>
          (case stat_files P w (filter is_log_name names) of
             Inl e \<Rightarrow> Inl e
           | Inr fs \<Rightarrow> Inr (sort_key (\<lambda>f. - l_created f) fs)))"

definition tailLogs :: "platform \<Rightarrow> jsnum \<Rightarrow> world \<Rightarrow> string" where
  "tailLogs P numLines w =
     (case log_files P w of
        Inl e \<Rightarrow> chalk P ''red'' (''Error tailing logs: '' @ exn_message e)
      | Inr fs \<Rightarrow>
          (case fs of
             [] \<Rightarrow> chalk P ''yellow'' ''No log files found''
           | latestLog # rest \<Rightarrow> viewLogFile P (l_path latestLog) numLines w))"

fun list_lines :: "platform \<Rightarrow> nat \<Rightarrow> listed list \<Rightarrow> string" where
  "list_lines P i [] = []"
| "list_lines P i (f # fs) =
     chalk P ''cyan'' (show_nat (i + 1) @ ''. '' @ l_name f @ NL)
     @ ''   Size: '' @ toFixed2_KB P (l_size f) @ '' KB'' @ NL
     @ ''   Created: '' @ date_toLocaleString P (l_created f) @ NL
     @ ''   Path: '' @ l_path f @ NL @ NL
     @ list_lines P (i + 1) fs"

definition listLogFiles :: "platform \<Rightarrow> world \<Rightarrow> string" where
  "listLogFiles P w =
     (case log_files P w of
        Inl e \<Rightarrow> chalk P ''red'' (''Error listing log files: '' @ exn_message e)
      | Inr fs \<Rightarrow>
          (if fs = [] then chalk P ''yellow'' ''No log files found''
           else chalk P ''bold'' (''API Log Files:'' @ NL @ NL) @ list_lines P 0 fs))"

subsection \<open>\<^verbatim>\<open>clearLogs\<close>\<close>

fun delete_logs :: "platform \<Rightarrow> string list \<Rightarrow> nat \<Rightarrow> world \<Rightarrow> (exn \<times> world) + (nat \<times> world)" where
  "delete_logs P [] deletedCount w = Inr (deletedCount, w)"
| "delete_logs P (f # fs) deletedCount w =
     (if endsWith f ''.log'' \<or> endsWith f ''.jsonl'' then
        (case unlinkSync (path_join (API_LOGS_PATH P) f) w of
           Inl e \<Rightarrow> Inl (e, w)
         | Inr w' \<Rightarrow> delete_logs P fs (deletedCount + 1) w')
      else delete_logs P fs deletedCount w)"

text \<open>\<open>answer\<close> is the line the user gives to the question of \<^verbatim>\<open>readline\<close>.\<close>

definition clearLogs :: "platform \<Rightarrow> string \<Rightarrow> world \<Rightarrow> string \<times> world" where
  "clearLogs P answer w =
     (if toLowerCase answer = ''y'' then
        (case readdirSync (API_LOGS_PATH P) w of
           Inl e \<Rightarrow> (chalk P ''red'' (''Error clearing logs: '' @ exn_message e), w)
         | Inr fs \<Rightarrow>
             (case delete_logs P fs 0 w of
                Inl (e, w') \<Rightarrow> (chalk P ''red'' (''Error clearing logs: '' @ exn_message e), w')
              | Inr (deletedCount, w') \<Rightarrow>
                  (chalk P ''green'' (''Successfully deleted '' @ show_nat deletedCount @ '' log files''),
                   w')))
      else (chalk P ''yellow'' ''Operation cancelled'', w))"

subsection \<open>The command\<close>

definition usage :: string where
  "usage = NL @ ''API Logs Command'' @ NL @ NL @ ''Usage:'' @ NL
     @ ''  /apilogs list                 - List all available log files'' @ NL
     @ ''  /apilogs tail [n]             - Show last n lines of most recent log (default: 20)'' @ NL
     @ ''  /apilogs clear                - Clear all API logs (with confirmation)'' @ NL
     @ ''  /apilogs dir                  - Show logs directory path'' @ NL
     @ ''  /apilogs view <file> [n]      - View specific log file or last n lines'' @ NL"

text \<open>\<^verbatim>\<open>args.trim().split(' ').filter(Boolean)\<close>.\<close>

definition words_of :: "string \<Rightarrow> string list" where
  "words_of args = filter (\<lambda>t. t \<noteq> []) (split_on CHR '' '' (trim args))"

text \<open>
  \<^verbatim>\<open>apilogsCommand.call\<close>: the result and the world after the call; \<open>answer\<close> is what the user
  answers if the command asks.
\<close>

definition apilogs_call :: "platform \<Rightarrow> string \<Rightarrow> string \<Rightarrow> world \<Rightarrow> string \<times> world" where
  "apilogs_call P args answer w =
     (case words_of args of
        [] \<Rightarrow> (usage, w)
      | subcommand # params \<Rightarrow>
          (if subcommand = ''list'' then (listLogFiles P w, w)
           else if subcommand = ''tail'' then
             (tailLogs P (case params of [] \<Rightarrow> Fin 20 | p # ps \<Rightarrow> parseInt p) w, w)
           else if subcommand = ''clear'' then clearLogs P answer w
           else if subcommand = ''dir'' then (API_LOGS_PATH P, w)
           else if subcommand = ''view'' then
             (case params of
                [] \<Rightarrow> (''Error: Please specify a log file to view'', w)
              | f # ps \<Rightarrow>
                  (viewLogFile P f (case ps of [] \<Rightarrow> Fin 0 | n # ns \<Rightarrow> parseInt n) w, w))
           else (usage, w)))"

section \<open>A platform and a world for evaluation\<close>

text \<open>
  A plain instance of the platform, to run the model on concrete inputs: the URL model above,
  colours off, documents written compactly and without escapes, a parser that knows the
  scalar documents and the empty array and object only, a fixed date, the identity where a
  locale would format, and the logs directory \<^verbatim>\<open>/cache/project/api-logs\<close>.
\<close>

definition quote :: "string \<Rightarrow> string" where
  "quote s = CHR 0x22 # s @ [CHR 0x22]"

fun json_text :: "json \<Rightarrow> string"
  and json_text_elems :: "json list \<Rightarrow> string"
  and json_text_members :: "(string \<times> json) list \<Rightarrow> string"
where
  "json_text JNull = ''null''"
| "json_text (JBool b) = (if b then ''true'' else ''false'')"
| "json_text (JNum i) = show_int i"
| "json_text (JStr s) = quote s"
| "json_text (JArr xs) = ''['' @ json_text_elems xs @ '']''"
| "json_text (JObj ms) = ''{'' @ json_text_members ms @ ''}''"
| "json_text_elems [] = []"
| "json_text_elems (x # xs) = json_text x @ (if xs = [] then [] else '','' @ json_text_elems xs)"
| "json_text_members [] = []"
| "json_text_members (m # ms) =
     quote (fst m) @ '':'' @ json_text (snd m) @ (if ms = [] then [] else '','' @ json_text_members ms)"

definition number_of_digits :: "string \<Rightarrow> jsnum" where
  "number_of_digits s =
     (if s \<noteq> [] \<and> list_all (is_digit 10) s then Fin (int (digits_value 10 s)) else NaN)"

definition parse_scalar :: "string \<Rightarrow> json option" where
  "parse_scalar s =
     (if s = ''null'' then Some JNull
      else if s = ''true'' then Some (JBool True)
      else if s = ''false'' then Some (JBool False)
      else if s = ''{}'' then Some (JObj [])
      else if s = ''[]'' then Some (JArr [])
      else if s \<noteq> [] \<and> list_all (is_digit 10) s then Some (JNum (int (digits_value 10 s)))
      else if 2 \<le> length s \<and> hd s = CHR 0x22 \<and> last s = CHR 0x22
              \<and> CHR 0x22 \<notin> set (butlast (tl s)) \<and> CHR 0x5C \<notin> set s
           then Some (JStr (butlast (tl s)))
      else None)"

definition plain_platform :: platform where
  "plain_platform =
     \<lparr> new_URL = parse_url,
       JSON_text = json_text,
       JSON_pretty = json_text,
       JSON_parse = parse_scalar,
       Number_of = number_of_digits,
       chalk = (\<lambda>style s. s),
       toISOString = (\<lambda>t. ''T+'' @ show_int t),
       local_date = (\<lambda>t. (2025, 0, 15)),
       toLocaleString = js_to_string,
       date_toLocaleString = (\<lambda>t. ''T+'' @ show_int t),
       randomUUID = (\<lambda>n. ''uuid-'' @ show_nat n),
       toFixed2_KB = (\<lambda>n. show_nat (n div 1024)),
       cache_dir = ''/cache'',
       cwd = ''project'' \<rparr>"

definition empty_world :: world where
  "empty_world =
     \<lparr> store = [], dirs = [], files = [], faults = (\<lambda>op. False), console = [], clock = 0,
       uuids = 0 \<rparr>"

definition blank_args :: log_args where
  "blank_args =
     \<lparr> url = Str ''https://example.com/'', http_method = Str ''GET'', headers = Undefined,
       body = Undefined, response = Undefined, responseBody = Undefined, statusCode = Undefined,
       error = Undefined, durationMs = Num (Fin 1), service = Undefined \<rparr>"

text \<open>
  A request, an underlying call that throws an \<^verbatim>\<open>Error\<close>, one that answers, and a wrapped
  function whose promise is rejected without a reason.
\<close>

definition example_request :: request where
  "example_request =
     \<lparr> req_url = ''https://api.anthropic.com/v1/messages'', req_method = ''POST'',
       req_headers = [(''authorization'', ''Bearer sk-1''), (''content-type'', ''application/json'')],
       req_body = BodyText ''hello'' \<rparr>"


definition answering_fetch :: fetch_fn where
  "answering_fetch rq h =
     (Inr (length h),
      h @ [HResponse 200 [(''content-type'', ''application/json'')] (BodyText ''{}'')], 12)"


text \<open>
  A world with a logs directory that holds one log file of three lines and one other file,
  and the entry that the interceptor writes for the example request when it is answered.
\<close>

definition logs_world :: world where
  "logs_world =
     empty_world
       \<lparr> dirs := [''/cache/project/api-logs''],
         files :=
           [(''/cache/project/api-logs/api-log-2025-01-15.jsonl'',
             \<lparr>content = ''first'' @ NL @ ''second'' @ NL @ ''third'' @ NL, birthtime = 0\<rparr>),
            (''/cache/project/api-logs/notes.txt'', \<lparr>content = ''keep'', birthtime = 1\<rparr>)] \<rparr>"

definition written_entry :: json where
  "written_entry =
     JObj [(''timestamp'', JStr ''T+12''),
           (''id'', JStr ''uuid-0''),
           (''service'', JStr ''anthropic''),
           (''url'', JStr ''https://api.anthropic.com/v1/messages''),
           (''method'', JStr ''POST''),
           (''headers'', JObj [(''authorization'', JStr ''***REDACTED***''),
                               (''content-type'', JStr ''application/json'')]),
           (''body'', JStr ''hello''),
           (''responseHeaders'', JObj [(''content-type'', JStr ''application/json'')]),
           (''responseBody'', JObj []),
           (''statusCode'', JNum 200),
           (''durationMs'', JNum 12)]"

section \<open>Verification of the sanitizer\<close>

subsection \<open>Specification-level definitions\<close>

text \<open>
  A store is well formed when no object has two properties of the same name; a document has
  distinct keys when none of its objects repeats a key.
\<close>

definition wf_heap :: "heap \<Rightarrow> bool" where
  "wf_heap h \<longleftrightarrow> (\<forall>c \<in> set h. case c of HObj props \<Rightarrow> distinct (map fst props) | _ \<Rightarrow> True)"

fun distinct_keys :: "json \<Rightarrow> bool" where
  "distinct_keys (JObj ms) = (distinct (map fst ms) \<and> (\<forall>m \<in> set ms. distinct_keys (snd m)))"
| "distinct_keys (JArr ds) = (\<forall>d \<in> set ds. distinct_keys d)"
| "distinct_keys d = True"

text \<open>
  The redaction the specification describes, on documents: in every object, at every depth
  reached through objects and arrays, the value of a sensitive key is the marker; every other
  key keeps its place and its value, redacted in turn.
\<close>

fun redact_spec :: "json \<Rightarrow> json" where
  "redact_spec (JObj ms) =
     JObj (map (\<lambda>m. (fst m, if is_sensitive (fst m) then JStr REDACTED else redact_spec (snd m))) ms)"
| "redact_spec (JArr ds) = JArr (map redact_spec ds)"
| "redact_spec d = d"

text \<open>
  A document that has no sensitive key at any depth is its own redaction: a sibling of a
  sensitive key changes only where it has sensitive keys itself.
\<close>

fun has_sensitive :: "json \<Rightarrow> bool" where
  "has_sensitive (JObj ms) = (\<exists>m \<in> set ms. is_sensitive (fst m) \<or> has_sensitive (snd m))"
| "has_sensitive (JArr ds) = (\<exists>d \<in> set ds. has_sensitive d)"
| "has_sensitive d = False"

lemma redact_spec_unchanged: "\<not> has_sensitive d \<Longrightarrow> redact_spec d = d"
proof (induction d rule: redact_spec.induct)
  case (1 ms)
  have "map (\<lambda>m. (fst m, if is_sensitive (fst m) then JStr REDACTED else redact_spec (snd m))) ms
      = map (\<lambda>m. m) ms"
    using 1 by (intro map_cong) auto
  then show ?case by simp
next
  case (2 ds)
  have "map redact_spec ds = map (\<lambda>d. d) ds"
    using 2 by (intro map_cong) auto
  then show ?case by simp
qed simp_all

lemma redact_spec_member:
  "(k, v) \<in> set ms \<Longrightarrow>
     (k, if is_sensitive k then JStr REDACTED else redact_spec v)
       \<in> set (case redact_spec (JObj ms) of JObj ms' \<Rightarrow> ms' | _ \<Rightarrow> [])"
  by (force simp: image_iff)

text \<open>
  \<open>tree h lo hi v d\<close>: in the store \<open>h\<close> the value \<open>v\<close> is a tree that reads as the document
  \<open>d\<close>, all of its cells lie at the addresses from \<open>lo\<close> up to \<open>hi\<close> (excluded), and the
  members of every cell lie in consecutive disjoint ranges below it: the layout of a value
  that \<^const>\<open>parse_doc\<close> has just built, which has no sharing.
\<close>

inductive tree :: "heap \<Rightarrow> nat \<Rightarrow> nat \<Rightarrow> jsval \<Rightarrow> json \<Rightarrow> bool"
  and trees :: "heap \<Rightarrow> nat \<Rightarrow> nat \<Rightarrow> jsval list \<Rightarrow> json list \<Rightarrow> bool"
where
  t_null: "lo \<le> hi \<Longrightarrow> tree h lo hi Null JNull"
| t_bool: "lo \<le> hi \<Longrightarrow> tree h lo hi (Bool b) (JBool b)"
| t_num: "lo \<le> hi \<Longrightarrow> tree h lo hi (Num (Fin i)) (JNum i)"
| t_str: "lo \<le> hi \<Longrightarrow> tree h lo hi (Str s) (JStr s)"
| t_arr: "trees h lo a vs ds \<Longrightarrow> a < hi \<Longrightarrow> a < length h \<Longrightarrow> h ! a = HArr vs
          \<Longrightarrow> tree h lo hi (Ref a) (JArr ds)"
| t_obj: "trees h lo a (map snd props) (map snd ms) \<Longrightarrow> map fst props = map fst ms
          \<Longrightarrow> distinct (map fst ms) \<Longrightarrow> a < hi \<Longrightarrow> a < length h \<Longrightarrow> h ! a = HObj props
          \<Longrightarrow> tree h lo hi (Ref a) (JObj ms)"
| ts_nil: "lo \<le> hi \<Longrightarrow> trees h lo hi [] []"
| ts_cons: "tree h lo mid v d \<Longrightarrow> trees h mid hi vs ds \<Longrightarrow> trees h lo hi (v # vs) (d # ds)"

lemma tree_le: "tree h lo hi v d \<Longrightarrow> lo \<le> hi" and trees_le: "trees h lo hi vs ds \<Longrightarrow> lo \<le> hi"
  by (induction rule: tree_trees.inducts) auto

lemma tree_frame:
  "tree h lo hi v d \<Longrightarrow> length h \<le> length h' \<Longrightarrow> (\<forall>i. lo \<le> i \<and> i < hi \<and> i < length h \<longrightarrow> h' ! i = h ! i)
     \<Longrightarrow> tree h' lo hi v d"
  and trees_frame:
  "trees h lo hi vs ds \<Longrightarrow> length h \<le> length h' \<Longrightarrow> (\<forall>i. lo \<le> i \<and> i < hi \<and> i < length h \<longrightarrow> h' ! i = h ! i)
     \<Longrightarrow> trees h' lo hi vs ds"
proof (induction rule: tree_trees.inducts)
  case (t_arr h lo a vs ds hi)
  have "lo \<le> a" using t_arr.hyps(1) by (rule trees_le)
  with t_arr show ?case by (auto intro!: tree_trees.t_arr)
next
  case (t_obj h lo a props ms hi)
  have "lo \<le> a" using t_obj.hyps(1) by (rule trees_le)
  with t_obj show ?case by (auto intro!: tree_trees.t_obj)
next
  case (ts_cons h lo mid v d hi vs ds)
  have "lo \<le> mid" "mid \<le> hi" using ts_cons.hyps by (auto dest: tree_le trees_le)
  with ts_cons show ?case by (auto intro!: tree_trees.ts_cons)
qed (auto intro: tree_trees.intros)

lemma tree_widen:
  "tree h lo hi v d \<Longrightarrow> hi \<le> hi' \<Longrightarrow> tree h lo hi' v d"
  by (induction rule: tree_trees.inducts(1)[where ?P2.0 = "\<lambda>h lo hi vs ds. True"])
     (auto intro: tree_trees.intros)

lemma tree_append: "tree h lo hi v d \<Longrightarrow> tree (h @ xs) lo hi v d"
  by (erule tree_frame) (auto simp: nth_append)

lemma trees_append: "trees h lo hi vs ds \<Longrightarrow> trees (h @ xs) lo hi vs ds"
  by (erule trees_frame) (auto simp: nth_append)


lemma define_prop_new: "k \<notin> fst ` set acc \<Longrightarrow> define_prop acc k v = acc @ [(k, v)]"
  by (induction acc) auto

lemma parse_tree:
  "parse_doc d h = (v, h1) \<Longrightarrow> distinct_keys d \<Longrightarrow>
     (\<exists>new. h1 = h @ new) \<and> tree h1 (length h) (length h1) v d"
  "parse_elems ds h = (vs, h1) \<Longrightarrow> (\<forall>d \<in> set ds. distinct_keys d) \<Longrightarrow>
     (\<exists>new. h1 = h @ new) \<and> trees h1 (length h) (length h1) vs ds"
  "parse_props ms h acc = (props, h1) \<Longrightarrow> (\<forall>m \<in> set ms. distinct_keys (snd m)) \<Longrightarrow>
     distinct (map fst ms) \<Longrightarrow> fst ` set ms \<inter> fst ` set acc = {} \<Longrightarrow>
     (\<exists>new. h1 = h @ new) \<and>
     (\<exists>ws. length ws = length ms \<and> props = acc @ zip (map fst ms) ws \<and>
           trees h1 (length h) (length h1) ws (map snd ms))"
proof (induction d h and ds h and ms h acc arbitrary: v h1 and vs h1 and props h1
       rule: parse_doc_parse_elems_parse_props.induct)
  case (5 ds h)
  obtain ws h' where pe: "parse_elems ds h = (ws, h')" by (cases "parse_elems ds h")
  with "5.prems" have v: "v = Ref (length h')" and h1: "h1 = h' @ [HArr ws]" by auto
  from "5.IH"[OF pe] "5.prems"(2) obtain new where
    new: "h' = h @ new" and t: "trees h' (length h) (length h') ws ds" by auto
  have "trees h1 (length h) (length h') ws ds" unfolding h1 by (rule trees_append[OF t])
  then have "tree h1 (length h) (length h1) (Ref (length h')) (JArr ds)"
    by (rule t_arr) (auto simp: h1)
  with v h1 new show ?case by auto
next
  case (6 ms h)
  obtain props h' where pp: "parse_props ms h [] = (props, h')" by (cases "parse_props ms h []")
  with "6.prems" have v: "v = Ref (length h')" and h1: "h1 = h' @ [HObj props]" by auto
  from "6.IH"[OF pp] "6.prems"(2) obtain new ws where
    new: "h' = h @ new" and ws: "length ws = length ms" "props = zip (map fst ms) ws"
    and t: "trees h' (length h) (length h') ws (map snd ms)" by auto
  have "trees h1 (length h) (length h') ws (map snd ms)" unfolding h1 by (rule trees_append[OF t])
  moreover have "map snd props = ws" "map fst props = map fst ms" using ws by auto
  ultimately have "tree h1 (length h) (length h1) (Ref (length h')) (JObj ms)"
    using "6.prems"(2) by (intro t_obj[where props = props]) (auto simp: h1)
  with v h1 new show ?case by auto
next
  case (8 d ds h)
  obtain w ha where pd: "parse_doc d h = (w, ha)" by (cases "parse_doc d h")
  obtain ws hb where pe: "parse_elems ds ha = (ws, hb)" by (cases "parse_elems ds ha")
  from pd pe "8.prems" have vs: "vs = w # ws" and h1: "h1 = hb" by auto
  from "8.IH"(1)[OF pd] "8.prems"(2) obtain n1 where
    n1: "ha = h @ n1" and t1: "tree ha (length h) (length ha) w d" by auto
  from "8.IH"(2)[OF pd[symmetric] pe] "8.prems"(2) obtain n2 where
    n2: "hb = ha @ n2" and t2: "trees hb (length ha) (length hb) ws ds" by auto
  have "tree hb (length h) (length ha) w d" unfolding n2 by (rule tree_append[OF t1])
  from this t2 have "trees hb (length h) (length hb) (w # ws) (d # ds)" by (rule ts_cons)
  with vs h1 n1 n2 show ?case by auto
next
  case (10 m ms h acc)
  obtain w ha where pd: "parse_doc (snd m) h = (w, ha)" by (cases "parse_doc (snd m) h")
  with "10.prems" have pp: "parse_props ms ha (define_prop acc (fst m) w) = (props, h1)" by auto
  have dp: "define_prop acc (fst m) w = acc @ [(fst m, w)]"
    using "10.prems"(4) by (intro define_prop_new) auto
  from "10.IH"(1)[OF pd] "10.prems"(2) obtain n1 where
    n1: "ha = h @ n1" and t1: "tree ha (length h) (length ha) w (snd m)" by auto
  have disj: "fst ` set ms \<inter> fst ` set (define_prop acc (fst m) w) = {}"
    using "10.prems"(3,4) unfolding dp by auto
  from "10.IH"(2)[OF pd[symmetric] pp _ _ disj] "10.prems"(2,3) obtain n2 ws where
    n2: "h1 = ha @ n2" and ws: "length ws = length ms"
      "props = define_prop acc (fst m) w @ zip (map fst ms) ws"
    and t2: "trees h1 (length ha) (length h1) ws (map snd ms)" by auto
  have "tree h1 (length h) (length ha) w (snd m)" unfolding n2 by (rule tree_append[OF t1])
  from this t2 have "trees h1 (length h) (length h1) (w # ws) (map snd (m # ms))"
    by (auto intro: ts_cons)
  moreover have "props = acc @ zip (map fst (m # ms)) (w # ws)" using ws dp by simp
  moreover have "length (w # ws) = length (m # ms)" using ws by simp
  moreover have "h1 = h @ (n1 @ n2)" using n1 n2 by simp
  ultimately show ?case by blast
qed (auto intro: tree_trees.intros)

lemma serialize_tree:
  "tree h lo hi v d \<Longrightarrow> (\<forall>b \<in> set stk. hi \<le> b) \<Longrightarrow> serialize h stk v = Inr (Some d)"
  and serialize_trees:
  "trees h lo hi vs ds \<Longrightarrow> (\<forall>b \<in> set stk. hi \<le> b) \<Longrightarrow>
     serialize_elems h stk vs = Inr ds \<and>
     (\<forall>(props :: (string \<times> jsval) list) ms. map snd props = vs \<longrightarrow> map snd ms = ds \<longrightarrow> map fst props = map fst ms
        \<longrightarrow> serialize_props h stk props = Inr ms)"
proof (induction arbitrary: stk and stk rule: tree_trees.inducts)
  case (t_arr h lo a vs ds hi)
  have "\<forall>b \<in> set (a # stk). a \<le> b" using t_arr.prems t_arr.hyps(2) by auto
  from t_arr.IH[OF this] t_arr.hyps t_arr.prems show ?case by auto
next
  case (t_obj h lo a props ms hi)
  have "\<forall>b \<in> set (a # stk). a \<le> b" using t_obj.prems t_obj.hyps(4) by auto
  from t_obj.IH[OF this] t_obj.hyps t_obj.prems show ?case by auto
next
  case (ts_cons h lo mid v d hi vs ds)
  have "mid \<le> hi" using ts_cons.hyps(2) by (rule trees_le)
  then have m: "\<forall>b \<in> set stk. mid \<le> b" using ts_cons.prems by auto
  note a = ts_cons.IH(1)[OF m] and b = ts_cons.IH(2)[OF ts_cons.prems]
  show ?case
  proof (intro conjI allI impI)
    show "serialize_elems h stk (v # vs) = Inr (d # ds)" using a b by simp
  next
    fix props :: "(string \<times> jsval) list" and ms
    assume p: "map snd props = v # vs" "map snd ms = d # ds" "map fst props = map fst ms"
    then obtain p0 ps m0 ms' where e: "props = p0 # ps" "ms = m0 # ms'" by (cases props; cases ms) auto
    with p b have "serialize_props h stk ps = Inr ms'" by auto
    with e p a show "serialize_props h stk props = Inr ms" by (cases p0; cases m0) auto
  qed
qed auto

lemma serialize_distinct:
  "serialize h stk v = Inr (Some d) \<Longrightarrow> wf_heap h \<Longrightarrow> distinct_keys d"
  "serialize_props h stk props = Inr ms \<Longrightarrow> wf_heap h \<Longrightarrow>
     (\<forall>m \<in> set ms. distinct_keys (snd m)) \<and> fst ` set ms \<subseteq> fst ` set props \<and>
     (distinct (map fst props) \<longrightarrow> distinct (map fst ms))"
  "serialize_elems h stk vs = Inr ds \<Longrightarrow> wf_heap h \<Longrightarrow> (\<forall>d \<in> set ds. distinct_keys d)"
proof (induction h stk v and h stk props and h stk vs arbitrary: d and ms and ds
       rule: serialize_serialize_props_serialize_elems.induct)
  case (5 h stk n)
  then show ?case by (cases n) auto
next
  case (8 h stk a)
  from "8.prems" have a: "a \<notin> set stk" "a < length h" by (auto split: if_splits)
  show ?case
  proof (cases "h ! a")
    case (HObj props)
    with "8.prems" a obtain ms where ms: "serialize_props h (a # stk) props = Inr ms" "d = JObj ms"
      by (auto split: sum.splits)
    have "distinct (map fst props)"
      using "8.prems"(2) a HObj unfolding wf_heap_def by (auto dest!: bspec[OF _ nth_mem[OF a(2)]])
    with "8.IH"(1)[OF _ HObj ms(1) "8.prems"(2)] a ms show ?thesis by auto
  next
    case (HArr vs)
    with "8.prems" a obtain ds where ds: "serialize_elems h (a # stk) vs = Inr ds" "d = JArr ds"
      by (auto split: sum.splits)
    with "8.IH"(2)[OF _ HArr ds(1) "8.prems"(2)] a show ?thesis by auto
  qed (use "8.prems" a in auto)
next
  case (10 h stk p ps)
  from "10.prems" obtain r rest where r: "serialize h stk (snd p) = Inr r"
    and rest: "serialize_props h stk ps = Inr rest"
    and ms: "ms = (case r of None \<Rightarrow> rest | Some d \<Rightarrow> (fst p, d) # rest)"
    by (auto split: sum.splits)
  note ih2 = "10.IH"(2)[OF r rest "10.prems"(2)]
  show ?case
  proof (cases r)
    case None
    with ms ih2 show ?thesis by auto
  next
    case (Some d0)
    from "10.IH"(1)[OF r[unfolded Some] "10.prems"(2)] have "distinct_keys d0" .
    with ms ih2 Some show ?thesis by auto
  qed
next
  case (12 h stk v vs)
  from "12.prems" obtain r rest where r: "serialize h stk v = Inr r"
    and rest: "serialize_elems h stk vs = Inr rest"
    and ds: "ds = (case r of None \<Rightarrow> JNull | Some d \<Rightarrow> d) # rest"
    by (auto split: sum.splits)
  note ih2 = "12.IH"(2)[OF r rest "12.prems"(2)]
  show ?case
  proof (cases r)
    case None
    with ds ih2 show ?thesis by auto
  next
    case (Some d0)
    from "12.IH"(1)[OF r[unfolded Some] "12.prems"(2)] have "distinct_keys d0" .
    with ds ih2 Some show ?thesis by auto
  qed
qed auto

definition same_outside :: "heap \<Rightarrow> heap \<Rightarrow> nat \<Rightarrow> nat \<Rightarrow> bool" where
  "same_outside h h' lo hi \<longleftrightarrow>
     length h' = length h \<and> (\<forall>i < length h. i < lo \<or> hi \<le> i \<longrightarrow> h' ! i = h ! i)"

definition san_ok :: "nat \<Rightarrow> bool" where
  "san_ok n \<longleftrightarrow> (\<forall>h lo hi v d. tree h lo hi v d \<longrightarrow> hi - lo < n \<longrightarrow>
     (\<exists>h'. sanitizeObject n h v = Some h' \<and> tree h' lo hi v (redact_spec d) \<and>
           same_outside h h' lo hi))"

lemma same_outside_refl: "same_outside h h lo hi"
  by (simp add: same_outside_def)

lemma same_outside_trans:
  "same_outside h h1 lo hi \<Longrightarrow> same_outside h1 h2 lo' hi' \<Longrightarrow> lo'' \<le> lo \<Longrightarrow> lo'' \<le> lo'
     \<Longrightarrow> hi \<le> hi'' \<Longrightarrow> hi' \<le> hi'' \<Longrightarrow> same_outside h h2 lo'' hi''"
  by (auto simp: same_outside_def)

lemma tree_same_outside:
  "tree h lo hi v d \<Longrightarrow> same_outside h h' lo' hi' \<Longrightarrow> hi \<le> lo' \<or> hi' \<le> lo \<Longrightarrow> tree h' lo hi v d"
  by (erule tree_frame) (auto simp: same_outside_def)

lemma trees_same_outside:
  "trees h lo hi vs ds \<Longrightarrow> same_outside h h' lo' hi' \<Longrightarrow> hi \<le> lo' \<or> hi' \<le> lo
     \<Longrightarrow> trees h' lo hi vs ds"
  by (erule trees_frame) (auto simp: same_outside_def)

lemma tree_scalar:
  "tree h lo hi v d \<Longrightarrow> \<not> (typeof v = ''object'' \<and> v \<noteq> Null) \<Longrightarrow> redact_spec d = d"
  by (erule tree.cases) auto

lemma child_step:
  assumes "san_ok n" "tree h lo hi v d" "hi - lo < n"
  shows "\<exists>h1. (if typeof v = ''object'' \<and> v \<noteq> Null then sanitizeObject n h v = Some h1 else h1 = h)
          \<and> tree h1 lo hi v (redact_spec d) \<and> same_outside h h1 lo hi"
proof (cases "typeof v = ''object'' \<and> v \<noteq> Null")
  case True
  with assms show ?thesis unfolding san_ok_def by auto
next
  case False
  with assms(2) tree_scalar[OF assms(2) False] show ?thesis
    by (auto simp: same_outside_refl)
qed

lemma trees_Nil_inv: "trees h lo hi [] ds \<Longrightarrow> ds = [] \<and> lo \<le> hi"
  by (erule trees.cases) auto

lemma trees_Cons_inv:
  "trees h lo hi (v # vs) ds \<Longrightarrow>
     \<exists>d ds' mid. ds = d # ds' \<and> tree h lo mid v d \<and> trees h mid hi vs ds'"
  by (erule trees.cases) auto

lemma arr_loop:
  assumes ok: "san_ok n"
  shows "trees h mid a suf ds \<Longrightarrow> h ! a = HArr (pre @ suf) \<Longrightarrow> a < length h \<Longrightarrow> a - mid < n \<Longrightarrow>
     \<exists>h'. sanitizeKeys n h a (map Index [length pre..<length pre + length suf]) = Some h' \<and>
          trees h' mid a suf (map redact_spec ds) \<and> same_outside h h' mid a"
proof (induction suf arbitrary: pre h mid ds)
  case Nil
  then show ?case
    by (auto dest!: trees_Nil_inv simp: same_outside_refl intro: ts_nil)
next
  case (Cons v suf)
  from trees_Cons_inv[OF Cons.prems(1)] obtain d ds' m' where
    ds: "ds = d # ds'" and t1: "tree h mid m' v d" and t2: "trees h m' a suf ds'" by blast
  have le: "mid \<le> m'" "m' \<le> a" using t1 t2 by (auto dest: tree_le trees_le)
  then have "m' - mid < n" using Cons.prems(4) by simp
  from child_step[OF ok t1 this] obtain h1 where
    step: "if typeof v = ''object'' \<and> v \<noteq> Null then sanitizeObject n h v = Some h1 else h1 = h"
    and t1': "tree h1 mid m' v (redact_spec d)" and so1: "same_outside h h1 mid m'" by blast
  have gp: "get_prop h a (Index (length pre)) = v"
    using Cons.prems(2,3) by (simp add: get_prop_def)
  have keys: "[length pre..<length pre + length (v # suf)]
      = length pre # [length (pre @ [v])..<length (pre @ [v]) + length suf]"
    by (subst upt_rec) simp
  have run: "sanitizeKeys n h a (map Index [length pre..<length pre + length (v # suf)])
      = sanitizeKeys n h1 a (map Index [length (pre @ [v])..<length (pre @ [v]) + length suf])"
    unfolding keys using step gp by (auto split: if_splits)
  have len1: "length h1 = length h" using so1 by (simp add: same_outside_def)
  have cell1: "h1 ! a = HArr ((pre @ [v]) @ suf)"
    using so1 le Cons.prems(2,3) by (simp add: same_outside_def)
  have t2': "trees h1 m' a suf ds'" using t2 so1 by (rule trees_same_outside) simp
  have "a - m' < n" using Cons.prems(4) le by simp
  from Cons.IH[OF t2' cell1 _ this] Cons.prems(3) len1 obtain h' where
    r: "sanitizeKeys n h1 a (map Index [length (pre @ [v])..<length (pre @ [v]) + length suf]) = Some h'"
    and t2'': "trees h' m' a suf (map redact_spec ds')" and so2: "same_outside h1 h' m' a" by auto
  have "tree h' mid m' v (redact_spec d)" using t1' so2 by (rule tree_same_outside) simp
  from this t2'' have "trees h' mid a (v # suf) (map redact_spec ds)"
    unfolding ds by (auto intro: ts_cons)
  moreover have "same_outside h h' mid a"
    using so1 so2 le by (auto simp: same_outside_def)
  ultimately show ?case using run r by auto
qed

definition redact_members :: "(string \<times> json) list \<Rightarrow> (string \<times> json) list" where
  "redact_members ms =
     map (\<lambda>m. (fst m, if is_sensitive (fst m) then JStr REDACTED else redact_spec (snd m))) ms"

lemma define_prop_mid:
  "k \<notin> fst ` set pre \<Longrightarrow> define_prop (pre @ (k, v) # suf) k w = pre @ (k, w) # suf"
  by (induction pre) auto

lemma map_of_mid: "k \<notin> fst ` set pre \<Longrightarrow> map_of (pre @ (k, v) # suf) k = Some v"
  by (induction pre) auto

lemma obj_loop:
  assumes ok: "san_ok n"
  shows "trees h mid a (map snd suf) (map snd ms) \<Longrightarrow> map fst suf = map fst ms \<Longrightarrow>
     h ! a = HObj (pre @ suf) \<Longrightarrow> distinct (map fst (pre @ suf)) \<Longrightarrow> a < length h \<Longrightarrow> a - mid < n \<Longrightarrow>
     \<exists>h' suf'. sanitizeKeys n h a (map (\<lambda>p. Name (fst p)) suf) = Some h' \<and>
          h' ! a = HObj (pre @ suf') \<and> map fst suf' = map fst suf \<and>
          trees h' mid a (map snd suf') (map snd (redact_members ms)) \<and>
          same_outside h h' mid (Suc a)"
proof (induction suf arbitrary: pre h mid ms)
  case Nil
  then show ?case
    by (auto simp: same_outside_refl redact_members_def)
next
  case (Cons p suf)
  obtain k v where p: "p = (k, v)" by (cases p)
  from Cons.prems(2) obtain m ms' where ms: "ms = m # ms'" by (cases ms) auto
  with Cons.prems(2) p obtain d where m: "m = (k, d)" by (cases m) auto
  have fsts: "map fst suf = map fst ms'" using Cons.prems(2) ms by simp
  from trees_Cons_inv[of h mid a v "map snd suf" "map snd ms"] Cons.prems(1) p ms m
  obtain m' where t1: "tree h mid m' v d" and t2: "trees h m' a (map snd suf) (map snd ms')"
    by auto
  have le: "mid \<le> m'" "m' \<le> a" using t1 t2 by (auto dest: tree_le trees_le)
  have knew: "k \<notin> fst ` set pre" using Cons.prems(4) p by auto
  have dist': "distinct (map fst ((pre @ [q]) @ suf))" if "fst q = k" for q
    using Cons.prems(4) p that by auto
  have rest_lt: "a - m' < n" using Cons.prems(6) le by simp
  show ?case
  proof (cases "is_sensitive k")
    case True
    define h1 where "h1 = set_prop h a (Name k) (Str REDACTED)"
    have cell1: "h1 ! a = HObj ((pre @ [(k, Str REDACTED)]) @ suf)"
      using Cons.prems(3,5) p knew by (simp add: h1_def set_prop_def define_prop_mid)
    have so1: "same_outside h h1 a (Suc a)"
      by (auto simp: h1_def set_prop_def same_outside_def)
    have len1: "length h1 = length h" using so1 by (simp add: same_outside_def)
    have t2': "trees h1 m' a (map snd suf) (map snd ms')"
      using t2 so1 by (rule trees_same_outside) simp
    from Cons.IH[OF t2' fsts cell1 dist' _ rest_lt] Cons.prems(5) len1
    obtain h' suf' where r: "sanitizeKeys n h1 a (map (\<lambda>p. Name (fst p)) suf) = Some h'"
      and c: "h' ! a = HObj ((pre @ [(k, Str REDACTED)]) @ suf')" "map fst suf' = map fst suf"
      and t2'': "trees h' m' a (map snd suf') (map snd (redact_members ms'))"
      and so2: "same_outside h1 h' m' (Suc a)" by auto
    have "tree h' mid m' (Str REDACTED) (JStr REDACTED)" using le by (auto intro: t_str)
    from this t2'' have "trees h' mid a (map snd ((k, Str REDACTED) # suf')) (map snd (redact_members ms))"
      unfolding ms m using True by (auto intro: ts_cons simp: redact_members_def)
    moreover have "same_outside h h' mid (Suc a)"
      using so1 so2 le by (auto simp: same_outside_def)
    moreover have "sanitizeKeys n h a (map (\<lambda>p. Name (fst p)) (p # suf)) = Some h'"
      using True r p by (simp add: h1_def)
    ultimately show ?thesis using c p
      by (intro exI[of _ h'] exI[of _ "(k, Str REDACTED) # suf'"]) auto
  next
    case False
    have "m' - mid < n" using Cons.prems(6) le by simp
    from child_step[OF ok t1 this] obtain h1 where
      step: "if typeof v = ''object'' \<and> v \<noteq> Null then sanitizeObject n h v = Some h1 else h1 = h"
      and t1': "tree h1 mid m' v (redact_spec d)" and so1: "same_outside h h1 mid m'" by blast
    have gp: "get_prop h a (Name k) = v"
      using Cons.prems(3,5) p knew by (simp add: get_prop_def map_of_mid del: map_of_append)
    have run: "sanitizeKeys n h a (map (\<lambda>p. Name (fst p)) (p # suf))
        = sanitizeKeys n h1 a (map (\<lambda>p. Name (fst p)) suf)"
      using step gp False p by (auto split: if_splits)
    have len1: "length h1 = length h" using so1 by (simp add: same_outside_def)
    have cell1: "h1 ! a = HObj ((pre @ [(k, v)]) @ suf)"
      using so1 le Cons.prems(3,5) p by (simp add: same_outside_def)
    have t2': "trees h1 m' a (map snd suf) (map snd ms')"
      using t2 so1 by (rule trees_same_outside) simp
    from Cons.IH[OF t2' fsts cell1 dist' _ rest_lt] Cons.prems(5) len1
    obtain h' suf' where r: "sanitizeKeys n h1 a (map (\<lambda>p. Name (fst p)) suf) = Some h'"
      and c: "h' ! a = HObj ((pre @ [(k, v)]) @ suf')" "map fst suf' = map fst suf"
      and t2'': "trees h' m' a (map snd suf') (map snd (redact_members ms'))"
      and so2: "same_outside h1 h' m' (Suc a)" by auto
    have "tree h' mid m' v (redact_spec d)" using t1' so2 by (rule tree_same_outside) simp
    from this t2'' have "trees h' mid a (map snd ((k, v) # suf')) (map snd (redact_members ms))"
      unfolding ms m using False by (auto intro: ts_cons simp: redact_members_def)
    moreover have "same_outside h h' mid (Suc a)"
      using so1 so2 le by (auto simp: same_outside_def)
    ultimately show ?thesis using c p run r
      by (intro exI[of _ h'] exI[of _ "(k, v) # suf'"]) auto
  qed
qed

subsection \<open>The frame of the sanitizer\<close>

text \<open>
  \<open>fresh L v\<close>: the value \<open>v\<close> does not refer to a cell below \<open>L\<close>; \<open>closed_above L h\<close>: no
  cell of \<open>h\<close> from \<open>L\<close> on refers to a cell below \<open>L\<close>.
\<close>

fun cell_vals :: "cell \<Rightarrow> jsval set" where
  "cell_vals (HObj props) = snd ` set props"
| "cell_vals (HArr vs) = set vs"
| "cell_vals c = {}"

fun fresh :: "nat \<Rightarrow> jsval \<Rightarrow> bool" where
  "fresh L (Ref b) = (L \<le> b)"
| "fresh L v = True"

definition closed_above :: "nat \<Rightarrow> heap \<Rightarrow> bool" where
  "closed_above L h \<longleftrightarrow> (\<forall>a. L \<le> a \<and> a < length h \<longrightarrow> (\<forall>v \<in> cell_vals (h ! a). fresh L v))"

lemma define_prop_vals: "snd ` set (define_prop ps k v) \<subseteq> insert v (snd ` set ps)"
  by (induction ps) auto

lemma cell_set_vals: "cell_vals (cell_set c k v) \<subseteq> insert v (insert Undefined (cell_vals c))"
  using define_prop_vals[of _ _ v]
  by (cases c; cases k) (auto dest: set_update_subset_insert[THEN subsetD])

lemma cell_get_vals: "cell_get c k = Undefined \<or> cell_get c k \<in> cell_vals c"
  by (cases c; cases k) (auto split: option.splits dest: map_of_SomeD intro: rev_image_eqI)

lemma fresh_get_prop: "closed_above L h \<Longrightarrow> L \<le> a \<Longrightarrow> fresh L (get_prop h a k)"
  using cell_get_vals[of "h ! a" k]
  by (auto simp: closed_above_def get_prop_def)

lemma closed_set_prop:
  "closed_above L h \<Longrightarrow> fresh L v \<Longrightarrow> closed_above L (set_prop h a k v)"
  unfolding closed_above_def set_prop_def
  using cell_set_vals[of "h ! a" k v]
  by (auto simp: nth_list_update)

lemma take_set_prop: "L \<le> a \<Longrightarrow> take L (set_prop h a k v) = take L h"
  by (simp add: set_prop_def)

lemma length_set_prop: "length (set_prop h a k v) = length h"
  by (simp add: set_prop_def)

lemma sanitize_frame:
  "sanitizeObject n h v = Some h' \<Longrightarrow> closed_above L h \<Longrightarrow> fresh L v \<Longrightarrow>
     length h' = length h \<and> take L h' = take L h \<and> closed_above L h'"
  "sanitizeKeys n h a ks = Some h' \<Longrightarrow> closed_above L h \<Longrightarrow> L \<le> a \<Longrightarrow>
     length h' = length h \<and> take L h' = take L h \<and> closed_above L h'"
proof (induction n h v and n h a ks arbitrary: h' and h' rule: sanitizeObject_sanitizeKeys.induct)
  case (1 h obj)
  then show ?case by simp
next
  case (2 n h obj)
  then show ?case by (cases obj) (auto split: if_splits)
next
  case (3 n h a)
  then show ?case by simp
next
  case (4 n h a key keys)
  show ?case
  proof (cases "sensitive_key key")
    case True
    with 4 show ?thesis
      by (auto simp: closed_set_prop take_set_prop length_set_prop)
  next
    case False
    note ns = this
    show ?thesis
    proof (cases "typeof (get_prop h a key) = ''object'' \<and> get_prop h a key \<noteq> Null")
      case True
      with 4 ns obtain h1 where h1: "sanitizeObject n h (get_prop h a key) = Some h1"
        and rest: "sanitizeKeys n h1 a keys = Some h'"
        by (auto split: option.splits)
      from "4.IH"(2)[OF ns True h1 "4.prems"(2) fresh_get_prop[OF "4.prems"(2,3)]]
      have a1: "length h1 = length h" "take L h1 = take L h" "closed_above L h1" by auto
      from "4.IH"(3)[OF ns True h1 rest a1(3) "4.prems"(3)] a1
      show ?thesis by simp
    next
      case False
      with 4 ns show ?thesis by auto
    qed
  qed
qed


lemma closed_append:
  "closed_above L h \<Longrightarrow> \<forall>v \<in> cell_vals c. fresh L v \<Longrightarrow> closed_above L (h @ [c])"
  by (auto simp: closed_above_def nth_append)

lemma parse_fresh:
  "parse_doc d h = (v, h1) \<Longrightarrow> L \<le> length h \<Longrightarrow> closed_above L h \<Longrightarrow>
     (\<exists>new. h1 = h @ new) \<and> fresh L v \<and> closed_above L h1"
  "parse_elems ds h = (vs, h1) \<Longrightarrow> L \<le> length h \<Longrightarrow> closed_above L h \<Longrightarrow>
     (\<exists>new. h1 = h @ new) \<and> (\<forall>v \<in> set vs. fresh L v) \<and> closed_above L h1"
  "parse_props ms h acc = (props, h1) \<Longrightarrow> L \<le> length h \<Longrightarrow> closed_above L h \<Longrightarrow>
     (\<forall>v \<in> snd ` set acc. fresh L v) \<Longrightarrow>
     (\<exists>new. h1 = h @ new) \<and> (\<forall>v \<in> snd ` set props. fresh L v) \<and> closed_above L h1"
proof (induction d h and ds h and ms h acc arbitrary: v h1 and vs h1 and props h1
       rule: parse_doc_parse_elems_parse_props.induct)
  case (5 ds h)
  obtain ws h' where pe: "parse_elems ds h = (ws, h')" by (cases "parse_elems ds h")
  with "5.prems" have v: "v = Ref (length h')" and h1: "h1 = h' @ [HArr ws]" by auto
  from "5.IH"[OF pe "5.prems"(2,3)] obtain new where
    new: "h' = h @ new" and f: "\<forall>v \<in> set ws. fresh L v" and c: "closed_above L h'" by auto
  have "closed_above L h1" unfolding h1 using c f by (intro closed_append) auto
  moreover have "h1 = h @ (new @ [HArr ws])" using h1 new by simp
  ultimately show ?case using v new "5.prems"(2) by auto
next
  case (6 ms h)
  obtain props h' where pp: "parse_props ms h [] = (props, h')" by (cases "parse_props ms h []")
  with "6.prems" have v: "v = Ref (length h')" and h1: "h1 = h' @ [HObj props]" by auto
  from "6.IH"[OF pp "6.prems"(2,3)] obtain new where
    new: "h' = h @ new" and f: "\<forall>v \<in> snd ` set props. fresh L v" and c: "closed_above L h'" by auto
  have "closed_above L h1" unfolding h1 using c f by (intro closed_append) auto
  moreover have "h1 = h @ (new @ [HObj props])" using h1 new by simp
  ultimately show ?case using v new "6.prems"(2) by auto
next
  case (8 d ds h)
  obtain w ha where pd: "parse_doc d h = (w, ha)" by (cases "parse_doc d h")
  obtain ws hb where pe: "parse_elems ds ha = (ws, hb)" by (cases "parse_elems ds ha")
  from pd pe "8.prems" have vs: "vs = w # ws" and h1: "h1 = hb" by auto
  from "8.IH"(1)[OF pd "8.prems"(2,3)] obtain n1 where
    n1: "ha = h @ n1" and f1: "fresh L w" and c1: "closed_above L ha" by auto
  have "L \<le> length ha" using n1 "8.prems"(2) by simp
  from "8.IH"(2)[OF pd[symmetric] pe this c1] obtain n2 where
    n2: "hb = ha @ n2" and f2: "\<forall>v \<in> set ws. fresh L v" and c2: "closed_above L hb" by auto
  have "h1 = h @ (n1 @ n2)" using h1 n1 n2 by simp
  with vs h1 f1 f2 c2 show ?case by auto
next
  case (10 m ms h acc)
  obtain w ha where pd: "parse_doc (snd m) h = (w, ha)" by (cases "parse_doc (snd m) h")
  with "10.prems" have pp: "parse_props ms ha (define_prop acc (fst m) w) = (props, h1)" by auto
  from "10.IH"(1)[OF pd "10.prems"(2,3)] obtain n1 where
    n1: "ha = h @ n1" and f1: "fresh L w" and c1: "closed_above L ha" by auto
  have l: "L \<le> length ha" using n1 "10.prems"(2) by simp
  have fa: "\<forall>v \<in> snd ` set (define_prop acc (fst m) w). fresh L v"
    using define_prop_vals[of acc "fst m" w] f1 "10.prems"(4) by blast
  from "10.IH"(2)[OF pd[symmetric] pp l c1 fa] obtain n2 where
    n2: "h1 = ha @ n2" and f2: "\<forall>v \<in> snd ` set props. fresh L v" and c2: "closed_above L h1" by auto
  have "h1 = h @ (n1 @ n2)" using n1 n2 by simp
  with f2 c2 show ?case by auto
qed auto

lemma closed_above_length: "closed_above (length h) h"
  by (auto simp: closed_above_def)

lemma take_eq_length: "take (length h) h' = h \<Longrightarrow> length h \<le> length h'"
  by (metis length_take min.cobounded1)

lemma sanitize_try_frame:
  "sanitize_try h data = Inl (e, h') \<Longrightarrow> take (length h) h' = h \<and> closed_above (length h) h'"
  "sanitize_try h data = Inr (r, h') \<Longrightarrow>
     take (length h) h' = h \<and> fresh (length h) r \<and> closed_above (length h) h'"
proof -
  show "take (length h) h' = h \<and> closed_above (length h) h'"
    if a: "sanitize_try h data = Inl (e, h')"
  proof (cases "serialize h [] data")
    case (Inl x)
    with a show ?thesis by (simp add: sanitize_try_def closed_above_length)
  next
    case (Inr r)
    show ?thesis
    proof (cases r)
      case None
      with a Inr show ?thesis by (simp add: sanitize_try_def closed_above_length)
    next
      case (Some d)
      obtain v h1 where pd: "parse_doc d h = (v, h1)" by (cases "parse_doc d h")
      from parse_fresh(1)[OF pd order_refl closed_above_length] obtain new where
        "h1 = h @ new" "closed_above (length h) h1" by auto
      with a Inr Some pd show ?thesis
        by (auto simp: sanitize_try_def split: option.splits)
    qed
  qed
  show "take (length h) h' = h \<and> fresh (length h) r \<and> closed_above (length h) h'"
    if a: "sanitize_try h data = Inr (r, h')"
  proof -
    from a obtain d where s: "serialize h [] data = Inr (Some d)"
      by (auto simp: sanitize_try_def split: sum.splits option.splits)
    obtain v h1 where pd: "parse_doc d h = (v, h1)" by (cases "parse_doc d h")
    from parse_fresh(1)[OF pd order_refl closed_above_length] obtain new where
      n: "h1 = h @ new" and f: "fresh (length h) v" and c: "closed_above (length h) h1" by auto
    from a s pd have so: "sanitizeObject (Suc (length h1)) h1 v = Some h'" and r: "r = v"
      by (auto simp: sanitize_try_def split: option.splits)
    from sanitize_frame(1)[OF so c f] n f r show ?thesis by simp
  qed
qed

lemma sanitizeData_prefix: "take (length h) (snd (sanitizeData h data)) = h"
proof (cases "truthy data")
  case False
  then show ?thesis by (simp add: sanitizeData_def)
next
  case True
  show ?thesis
  proof (cases "sanitize_try h data")
    case (Inl x)
    obtain e h' where x: "x = (e, h')" by (cases x)
    from sanitize_try_frame(1)[OF Inl[unfolded x]] True Inl x show ?thesis
      by (auto simp: sanitizeData_def dest: take_eq_length)
  next
    case (Inr y)
    obtain r h' where y: "y = (r, h')" by (cases y)
    from sanitize_try_frame(2)[OF Inr[unfolded y]] True Inr y show ?thesis
      by (simp add: sanitizeData_def)
  qed
qed

lemma san_ok_all: "san_ok n"
proof (induction n)
  case 0
  show ?case by (simp add: san_ok_def)
next
  case (Suc n)
  show ?case unfolding san_ok_def
  proof (intro allI impI)
    fix h lo hi v d
    assume t: "tree h lo hi v d" and lt: "hi - lo < Suc n"
    from t show "\<exists>h'. sanitizeObject (Suc n) h v = Some h' \<and> tree h' lo hi v (redact_spec d) \<and>
           same_outside h h' lo hi"
    proof cases
      case (t_arr a vs ds)
      have le: "lo \<le> a" using t_arr(3) by (rule trees_le)
      then have "a - lo < n" using lt t_arr(4) by simp
      from arr_loop[OF Suc t_arr(3), of "[]"] t_arr(5,6) this obtain h' where
        r: "sanitizeKeys n h a (map Index [0..<length vs]) = Some h'"
        and ts: "trees h' lo a vs (map redact_spec ds)" and so: "same_outside h h' lo a" by auto
      have "h' ! a = HArr vs" "a < length h'" using so t_arr(5,6) by (auto simp: same_outside_def)
      with ts t_arr(4) have "tree h' lo hi (Ref a) (JArr (map redact_spec ds))"
        by (intro tree_trees.t_arr[where vs = vs]) auto
      moreover have "same_outside h h' lo hi" using so t_arr(4) by (auto simp: same_outside_def)
      moreover have "sanitizeObject (Suc n) h v = Some h'"
        using r t_arr by (simp add: keys_of_def)
      ultimately show ?thesis using t_arr by auto
    next
      case (t_obj a props ms)
      have le: "lo \<le> a" using t_obj(3) by (rule trees_le)
      then have "a - lo < n" using lt t_obj(6) by simp
      from obj_loop[OF Suc t_obj(3,4), of "[]"] t_obj(4,5,7,8) this obtain h' props' where
        r: "sanitizeKeys n h a (map (\<lambda>p. Name (fst p)) props) = Some h'"
        and c: "h' ! a = HObj props'" "map fst props' = map fst props"
        and ts: "trees h' lo a (map snd props') (map snd (redact_members ms))"
        and so: "same_outside h h' lo (Suc a)" by auto
      have "a < length h'" using so t_obj(7) by (auto simp: same_outside_def)
      moreover have "map fst props' = map fst (redact_members ms)"
        using c t_obj(4) by (simp add: redact_members_def comp_def)
      moreover have "distinct (map fst (redact_members ms))"
        using t_obj(5) by (simp add: redact_members_def comp_def)
      ultimately have "tree h' lo hi (Ref a) (JObj (redact_members ms))"
        using ts c t_obj(6) by (intro tree_trees.t_obj[where props = props']) auto
      moreover have "same_outside h h' lo hi" using so t_obj(6) by (auto simp: same_outside_def)
      moreover have "sanitizeObject (Suc n) h v = Some h'"
        using r t_obj by (simp add: keys_of_def)
      ultimately show ?thesis using t_obj by (auto simp: redact_members_def)
    qed (auto simp: same_outside_refl intro: tree_trees.intros)
  qed
qed

lemma sanitize_try_redacts:
  assumes "wf_heap h" and s: "serialize h [] data = Inr (Some d)"
  shows "\<exists>r h'. sanitize_try h data = Inr (r, h') \<and> serialize h' [] r = Inr (Some (redact_spec d))"
proof -
  have dk: "distinct_keys d" using serialize_distinct(1)[OF s assms(1)] .
  obtain v h1 where pd: "parse_doc d h = (v, h1)" by (cases "parse_doc d h")
  from parse_tree(1)[OF pd dk] have t: "tree h1 (length h) (length h1) v d" by simp
  have "length h1 - length h < Suc (length h1)" by simp
  with san_ok_all[of "Suc (length h1)"] t obtain h2 where
    so: "sanitizeObject (Suc (length h1)) h1 v = Some h2"
    and t2: "tree h2 (length h) (length h1) v (redact_spec d)"
    unfolding san_ok_def by blast
  have "serialize h2 [] v = Inr (Some (redact_spec d))"
    by (rule serialize_tree[OF t2]) simp
  with s pd so show ?thesis by (simp add: sanitize_try_def)
qed

lemma redaction_of_serializable:
  assumes "wf_heap h" and s: "serialize h [] data = Inr (Some d)"
  shows "serialize (snd (sanitizeData h data)) [] (fst (sanitizeData h data))
           = Inr (Some (redact_spec d))"
proof (cases "truthy data")
  case True
  with sanitize_try_redacts[OF assms] show ?thesis
    by (auto simp: sanitizeData_def)
next
  case False
  then have "sanitizeData h data = (data, h)" by (simp add: sanitizeData_def)
  moreover have "redact_spec d = d"
    using False s by (cases data) (auto split: jsnum.splits)
  ultimately show ?thesis using s by simp
qed

lemma falsy_fresh: "\<not> truthy v \<Longrightarrow> fresh L v"
  by (cases v) auto

lemma not_object_fresh: "typeof v \<noteq> ''object'' \<Longrightarrow> fresh L v"
  by (cases v) auto

lemma sanitizeData_fresh:
  "fresh (length h) (fst (sanitizeData h data)) \<and> closed_above (length h) (snd (sanitizeData h data))"
proof (cases "truthy data")
  case False
  then show ?thesis by (simp add: sanitizeData_def falsy_fresh closed_above_length)
next
  case True
  show ?thesis
  proof (cases "sanitize_try h data")
    case (Inl x)
    obtain e h' where x: "x = (e, h')" by (cases x)
    from sanitize_try_frame(1)[OF Inl[unfolded x]]
    have p: "length h \<le> length h'" and c: "closed_above (length h) h'"
      by (auto dest: take_eq_length)
    have "closed_above (length h) (h' @ [could_not_sanitize])"
      using c by (rule closed_append) (simp add: could_not_sanitize_def)
    with p c True Inl x show ?thesis
      by (simp add: sanitizeData_def not_object_fresh)
  next
    case (Inr y)
    obtain r h' where y: "y = (r, h')" by (cases y)
    from sanitize_try_frame(2)[OF Inr[unfolded y]] True Inr y show ?thesis
      by (simp add: sanitizeData_def)
  qed
qed

subsection \<open>The claims about the sanitizer\<close>

text \<open>
  C1. For every value whose serialization succeeds, in a well-formed store,
  \<^verbatim>\<open>sanitizeData\<close> returns a value that serializes to the redaction of the input's document:
  every key named \<^verbatim>\<open>api_key\<close>, \<^verbatim>\<open>apiKey\<close>, \<^verbatim>\<open>authorization\<close>, \<^verbatim>\<open>Authorization\<close>,
  \<^verbatim>\<open>token\<close>, \<^verbatim>\<open>password\<close> or \<^verbatim>\<open>key\<close>, at any depth reached through objects and arrays,
  has the marker as its value, and every other key keeps its place and its own (redacted)
  value. The result is a deep copy: it is built from cells that did not exist before the call
  and that refer to no earlier cell.
\<close>

theorem sanitizeData_redacts:
  assumes "wf_heap h" and "serialize h [] data = Inr (Some d)"
  shows "serialize (snd (sanitizeData h data)) [] (fst (sanitizeData h data))
           = Inr (Some (redact_spec d))
         \<and> fresh (length h) (fst (sanitizeData h data))
         \<and> closed_above (length h) (snd (sanitizeData h data))"
  using redaction_of_serializable[OF assms] sanitizeData_fresh[of h data] by simp

theorem sanitizeData_redacts_witness:
  "wf_heap [HObj [(''password'', Str ''hunter2''), (''user'', Str ''bob''), (''nested'', Ref 1)],
            HArr [Ref 2, Num (Fin 3)],
            HObj [(''token'', Str ''t''), (''id'', Num (Fin 7))]]
   \<and> serialize [HObj [(''password'', Str ''hunter2''), (''user'', Str ''bob''), (''nested'', Ref 1)],
                HArr [Ref 2, Num (Fin 3)],
                HObj [(''token'', Str ''t''), (''id'', Num (Fin 7))]] [] (Ref 0)
       = Inr (Some (JObj [(''password'', JStr ''hunter2''), (''user'', JStr ''bob''),
                          (''nested'', JArr [JObj [(''token'', JStr ''t''), (''id'', JNum 7)], JNum 3])]))
   \<and> (case sanitizeData [HObj [(''password'', Str ''hunter2''), (''user'', Str ''bob''), (''nested'', Ref 1)],
                HArr [Ref 2, Num (Fin 3)],
                HObj [(''token'', Str ''t''), (''id'', Num (Fin 7))]] (Ref 0) of (r, h') \<Rightarrow>
        serialize h' [] r
          = Inr (Some (JObj [(''password'', JStr ''***REDACTED***''), (''user'', JStr ''bob''),
                     (''nested'', JArr [JObj [(''token'', JStr ''***REDACTED***''), (''id'', JNum 7)],
                                        JNum 3])])))"
proof -
  let ?H = "[HObj [(''password'', Str ''hunter2''), (''user'', Str ''bob''), (''nested'', Ref 1)],
            HArr [Ref 2, Num (Fin 3)],
            HObj [(''token'', Str ''t''), (''id'', Num (Fin 7))]]"
  let ?D = "JObj [(''password'', JStr ''hunter2''), (''user'', JStr ''bob''),
                  (''nested'', JArr [JObj [(''token'', JStr ''t''), (''id'', JNum 7)], JNum 3])]"
  have a: "wf_heap ?H" by (simp add: wf_heap_def)
  have b: "serialize ?H [] (Ref 0) = Inr (Some ?D)" by code_simp
  have c: "redact_spec ?D = JObj [(''password'', JStr ''***REDACTED***''), (''user'', JStr ''bob''),
                     (''nested'', JArr [JObj [(''token'', JStr ''***REDACTED***''), (''id'', JNum 7)],
                                        JNum 3])]"
    by (simp add: is_sensitive_def REDACTED_def)
  from sanitizeData_redacts[OF a b] a b c show ?thesis
    by (simp add: case_prod_beta)
qed

text \<open>
  C7. \<^verbatim>\<open>sanitizeData(undefined)\<close> is \<^verbatim>\<open>undefined\<close>, with the store as it was. For an input
  whose serialization fails (\<^verbatim>\<open>JSON.stringify\<close> throws, as on a cycle or a BigInt, or gives
  no text), the call returns normally: a new object
  \<^verbatim>\<open>{ sanitized: '[Object could not be safely sanitized]' }\<close> when \<^verbatim>\<open>typeof\<close> the input is
  \<^verbatim>\<open>'object'\<close>, and the input itself otherwise.
\<close>

theorem sanitizeData_unserializable:
  "sanitizeData h Undefined = (Undefined, h) \<and>
   ((\<forall>d. serialize h [] data \<noteq> Inr (Some d)) \<longrightarrow>
      sanitizeData h data =
        (if typeof data = ''object'' then (Ref (length h), h @ [could_not_sanitize])
         else (data, h)))"
proof -
  have "sanitizeData h data =
        (if typeof data = ''object'' then (Ref (length h), h @ [could_not_sanitize]) else (data, h))"
    if "\<forall>d. serialize h [] data \<noteq> Inr (Some d)"
    using that
    by (cases data; cases "serialize h [] data")
       (auto simp: sanitizeData_def sanitize_try_def split: sum.splits option.splits)
  then show ?thesis by (simp add: sanitizeData_def)
qed

theorem sanitizeData_unserializable_witness:
  "sanitizeData [HObj [(''self'', Ref 0)]] (Ref 0)
     = (Ref 1, [HObj [(''self'', Ref 0)],
                HObj [(''sanitized'', Str ''[Object could not be safely sanitized]'')]])
   \<and> sanitizeData [] (BigInt 7) = (BigInt 7, [])"
proof -
  have a: "\<forall>d. serialize [HObj [(''self'', Ref 0)]] [] (Ref 0) \<noteq> Inr (Some d)" by simp
  have b: "\<forall>d. serialize [] [] (BigInt 7) \<noteq> Inr (Some d)" by simp
  from sanitizeData_unserializable[of "[HObj [(''self'', Ref 0)]]" "Ref 0"] a
       sanitizeData_unserializable[of "[]" "BigInt 7"] b
  show ?thesis by (simp add: could_not_sanitize_def)
qed

text \<open>
  C9. \<^verbatim>\<open>sanitizeData\<close> does not mutate its argument: every cell that exists before the call
  is the same after it, for every store and every input (the store after the call is the
  store before it, followed by the cells of the copy).
\<close>

theorem sanitizeData_frame:
  "take (length h) (snd (sanitizeData h data)) = h"
  by (rule sanitizeData_prefix)

theorem sanitizeData_frame_witness:
  "take 3 (snd (sanitizeData
      [HObj [(''password'', Str ''hunter2''), (''user'', Str ''bob''), (''nested'', Ref 1)],
       HArr [Ref 2, Num (Fin 3)],
       HObj [(''token'', Str ''t''), (''id'', Num (Fin 7))]] (Ref 0)))
   = [HObj [(''password'', Str ''hunter2''), (''user'', Str ''bob''), (''nested'', Ref 1)],
      HArr [Ref 2, Num (Fin 3)],
      HObj [(''token'', Str ''t''), (''id'', Num (Fin 7))]]"
  using sanitizeData_frame[of
      "[HObj [(''password'', Str ''hunter2''), (''user'', Str ''bob''), (''nested'', Ref 1)],
       HArr [Ref 2, Num (Fin 3)],
       HObj [(''token'', Str ''t''), (''id'', Num (Fin 7))]]" "Ref 0"]
  by (simp add: numeral_3_eq_3)

section \<open>Verification of the service classification\<close>

text \<open>
  The classification as the specification words it: an ordered list of rules, each a list
  of substrings and a label; the first rule one of whose substrings occurs in the host name
  gives the label, and \<^verbatim>\<open>unknown\<close> is the label when no rule applies.
\<close>

definition service_rules :: "(string list \<times> string) list" where
  "service_rules =
     [([''anthropic.com'', ''claude''], ''anthropic''),
      ([''openai.com'', ''oai''], ''openai''),
      ([''anthropic-bedrock''], ''anthropic-bedrock''),
      ([''vertex-ai''], ''anthropic-vertex''),
      ([''amazonaws.com''], ''aws''),
      ([''google''], ''google'')]"

fun first_match :: "(string list \<times> string) list \<Rightarrow> string \<Rightarrow> string" where
  "first_match [] host = ''unknown''"
| "first_match (rule # rules) host =
     (if \<exists>sub \<in> set (fst rule). sublist sub host then snd rule else first_match rules host)"

definition classify_spec :: "string \<Rightarrow> string" where
  "classify_spec host = first_match service_rules host"

lemma getServiceFromUrl_spec:
  "getServiceFromUrl P u =
     (case new_URL P u of
        None \<Rightarrow> Inl (TypeError ''Invalid URL'')
      | Some urlObj \<Rightarrow> Inr (classify_spec (hostname urlObj)))"
  by (simp add: getServiceFromUrl_def classify_spec_def service_rules_def str_includes_def
           split: option.splits)

lemma parse_url_examples:
  "parse_url ''https://api.anthropic.com/v1/x''
     = Some \<lparr>hostname = ''api.anthropic.com'', pathname = ''/v1/x'', search = ''''\<rparr>"
  "parse_url ''https://api.openai.com/v1/x''
     = Some \<lparr>hostname = ''api.openai.com'', pathname = ''/v1/x'', search = ''''\<rparr>"
  "parse_url ''https://s3.amazonaws.com/bucket''
     = Some \<lparr>hostname = ''s3.amazonaws.com'', pathname = ''/bucket'', search = ''''\<rparr>"
  "parse_url ''https://example.com''
     = Some \<lparr>hostname = ''example.com'', pathname = ''/'', search = ''''\<rparr>"
  by code_simp+

text \<open>
  C5. \<^verbatim>\<open>getServiceFromUrl\<close> is a function of the host name of the URL alone: it is the
  first-match classification of the specification applied to the host name (and the TypeError
  of the URL constructor when the text is not a URL). On the four URLs of the specification
  it gives \<^verbatim>\<open>anthropic\<close>, \<^verbatim>\<open>openai\<close>, \<^verbatim>\<open>aws\<close> and \<^verbatim>\<open>unknown\<close>.
\<close>

theorem getServiceFromUrl_first_match:
  "getServiceFromUrl P u =
     (case new_URL P u of
        None \<Rightarrow> Inl (TypeError ''Invalid URL'')
      | Some urlObj \<Rightarrow> Inr (classify_spec (hostname urlObj)))
   \<and> getServiceFromUrl (P\<lparr>new_URL := parse_url\<rparr>) ''https://api.anthropic.com/v1/x'' = Inr ''anthropic''
   \<and> getServiceFromUrl (P\<lparr>new_URL := parse_url\<rparr>) ''https://api.openai.com/v1/x'' = Inr ''openai''
   \<and> getServiceFromUrl (P\<lparr>new_URL := parse_url\<rparr>) ''https://s3.amazonaws.com/bucket'' = Inr ''aws''
   \<and> getServiceFromUrl (P\<lparr>new_URL := parse_url\<rparr>) ''https://example.com'' = Inr ''unknown''"
proof -
  have "getServiceFromUrl (P\<lparr>new_URL := parse_url\<rparr>) ''https://api.anthropic.com/v1/x'' = Inr ''anthropic''"
    by (simp add: getServiceFromUrl_def parse_url_examples str_includes_def) code_simp
  moreover
  have "getServiceFromUrl (P\<lparr>new_URL := parse_url\<rparr>) ''https://api.openai.com/v1/x'' = Inr ''openai''"
    by (simp add: getServiceFromUrl_def parse_url_examples str_includes_def) code_simp
  moreover
  have "getServiceFromUrl (P\<lparr>new_URL := parse_url\<rparr>) ''https://s3.amazonaws.com/bucket'' = Inr ''aws''"
    by (simp add: getServiceFromUrl_def parse_url_examples str_includes_def) code_simp
  moreover
  have "getServiceFromUrl (P\<lparr>new_URL := parse_url\<rparr>) ''https://example.com'' = Inr ''unknown''"
    by (simp add: getServiceFromUrl_def parse_url_examples str_includes_def) code_simp
  ultimately show ?thesis using getServiceFromUrl_spec[of P u] by simp
qed

theorem getServiceFromUrl_first_match_witness:
  "getServiceFromUrl plain_platform ''https://claude.ai/chat'' = Inr ''anthropic''
   \<and> getServiceFromUrl plain_platform ''not a url'' = Inl (TypeError ''Invalid URL'')"
proof -
  have a: "new_URL plain_platform ''https://claude.ai/chat''
      = Some \<lparr>hostname = ''claude.ai'', pathname = ''/chat'', search = []\<rparr>" by code_simp
  have b: "new_URL plain_platform ''not a url'' = None" by code_simp
  have c: "classify_spec ''claude.ai'' = ''anthropic''" by code_simp
  from getServiceFromUrl_first_match[of plain_platform "''https://claude.ai/chat''"]
       getServiceFromUrl_first_match[of plain_platform "''not a url''"] a b c
  show ?thesis by simp
qed

section \<open>Verification of the log writer and of the wrappers\<close>

text \<open>The path of the log file of the day, which depends on the clock only.\<close>

definition log_path :: "platform \<Rightarrow> world \<Rightarrow> string" where
  "log_path P w = path_join (API_LOGS_PATH P) (''api-log-'' @ getCurrentDate P w @ ''.jsonl'')"

lemma getCurrentDate_clock: "clock w' = clock w \<Longrightarrow> getCurrentDate P w' = getCurrentDate P w"
  by (simp add: getCurrentDate_def)

lemma getApiLogFilePath_Inr:
  "getApiLogFilePath P w = Inr (p, w') \<Longrightarrow>
     p = log_path P w \<and> (w' = w \<or> w' = w\<lparr>dirs := API_LOGS_PATH P # dirs w\<rparr>)"
  by (auto simp: getApiLogFilePath_def ensureApiLogsDirectoryExists_def mkdirSync_def log_path_def
        getCurrentDate_def split: sum.splits if_splits)

lemma serialize_None:
  "serialize h stk v = Inr None \<longleftrightarrow> v = Undefined \<or> typeof v = ''function'' \<or> typeof v = ''symbol''"
  by (cases v) (auto split: sum.splits cell.splits)

lemma serialize_props_keys:
  "serialize_props h stk props = Inr ms \<Longrightarrow>
     fst ` set ms = {k. \<exists>v d. (k, v) \<in> set props \<and> serialize h stk v = Inr (Some d)}"
proof (induction props arbitrary: ms)
  case Nil
  then show ?case by simp
next
  case (Cons p props)
  from Cons.prems obtain r rest where r: "serialize h stk (snd p) = Inr r"
    and rest: "serialize_props h stk props = Inr rest"
    and ms: "ms = (case r of None \<Rightarrow> rest | Some d \<Rightarrow> (fst p, d) # rest)"
    by (auto split: sum.splits)
  from Cons.IH[OF rest] r ms show ?case
    by (cases p; cases r) auto
qed

lemma serialize_props_all_Inr:
  "serialize_props h stk props = Inr ms \<Longrightarrow> (k, v) \<in> set props \<Longrightarrow> \<exists>r. serialize h stk v = Inr r"
  by (induction props arbitrary: ms) (auto split: sum.splits)

lemma serialize_entry:
  "serialize (h @ [HObj props]) [] (Ref (length h)) = Inr r \<Longrightarrow>
     \<exists>ms. r = Some (JObj ms) \<and> serialize_props (h @ [HObj props]) [length h] props = Inr ms"
  by (auto split: sum.splits)

lemma error_field_serial:
  assumes "error_field h e = (err, h')" and "serialize H stk err = Inr r"
  shows "r \<noteq> None \<longleftrightarrow> truthy e \<and> typeof e \<noteq> ''function'' \<and> typeof e \<noteq> ''symbol''"
proof -
  have "r = None \<longleftrightarrow> err = Undefined \<or> typeof err = ''function'' \<or> typeof err = ''symbol''"
    using assms(2) serialize_None[of H stk err] by auto
  with assms(1) show ?thesis
    by (auto simp: error_field_def instanceof_Error_def split: if_splits jsval.splits cell.splits)
qed

lemma write_entry_Inl:
  "write_entry P n w1 = Inl (e, w') \<Longrightarrow>
     console w' = console w1 \<and> clock w' = clock w1 \<and> faults w' = faults w1 \<and> files w' = files w1
     \<and> (dirs w' = dirs w1 \<or> dirs w' = API_LOGS_PATH P # dirs w1)"
  by (auto simp: write_entry_def split: sum.splits prod.splits dest!: getApiLogFilePath_Inr)

lemma write_entry_Inr:
  assumes "write_entry P (length h) w1 = Inr w'" "store w1 = h @ [HObj props]"
  shows "console w' = console w1 \<and> clock w' = clock w1 \<and> faults w' = faults w1
     \<and> (dirs w' = dirs w1 \<or> dirs w' = API_LOGS_PATH P # dirs w1)
     \<and> (\<exists>ms. files w' = append_file (files w1) (log_path P w1) (JSON_text P (JObj ms) @ NL) (clock w1)
            \<and> serialize_props (h @ [HObj props]) [length h] props = Inr ms)"
proof -
  from assms(1) obtain logPath w2 r where
    g: "getApiLogFilePath P w1 = Inr (logPath, w2)"
    and ser: "serialize (store w2) [] (Ref (length h)) = Inr r"
    and app: "appendFileSync logPath
                ((case r of None \<Rightarrow> ''undefined'' | Some d \<Rightarrow> JSON_text P d) @ NL) w2 = Inr w'"
    by (auto simp: write_entry_def split: sum.splits prod.splits)
  from getApiLogFilePath_Inr[OF g] have lp: "logPath = log_path P w1"
    and w2: "w2 = w1 \<or> w2 = w1\<lparr>dirs := API_LOGS_PATH P # dirs w1\<rparr>" by auto
  have st: "store w2 = h @ [HObj props]" using w2 assms(2) by auto
  from serialize_entry[OF ser[unfolded st]] obtain ms where
    r: "r = Some (JObj ms)" and sp: "serialize_props (h @ [HObj props]) [length h] props = Inr ms"
    by auto
  from app w2 r lp sp show ?thesis
    by (auto simp: appendFileSync_def split: if_splits)
qed

lemma logApiCall_try_Inl:
  assumes "logApiCall_try P a w = Inl (e, w')"
  shows "console w' = console w \<and> clock w' = clock w \<and> faults w' = faults w \<and> files w' = files w
         \<and> (dirs w' = dirs w \<or> dirs w' = API_LOGS_PATH P # dirs w)"
proof -
  obtain hdrs h1 where s1: "sanitizeData (store w) (headers a) = (hdrs, h1)"
    by (cases "sanitizeData (store w) (headers a)")
  obtain bdy h2 where s2: "sanitizeData h1 (body a) = (bdy, h2)"
    by (cases "sanitizeData h1 (body a)")
  show ?thesis
  proof (cases "response_headers h2 (response a)")
    case (Inl x)
    with assms s1 s2 show ?thesis by (auto simp: logApiCall_try_def)
  next
    case (Inr y)
    obtain rhdrs h3 where y: "y = (rhdrs, h3)" by (cases y)
    obtain rbody h4 where s4:
      "(if truthy (responseBody a) then sanitizeData h3 (responseBody a) else (Undefined, h3)) = (rbody, h4)"
      by (cases "(if truthy (responseBody a) then sanitizeData h3 (responseBody a) else (Undefined, h3))")
    obtain err h5 where s5: "error_field h4 (error a) = (err, h5)"
      by (cases "error_field h4 (error a)")
    from assms s1 s2 Inr y s4 s5 have
      "write_entry P (length h5) (w\<lparr>uuids := Suc (uuids w),
             store := h5 @ [log_entry P a w hdrs bdy rhdrs rbody (status_field h4 a) err]\<rparr>) = Inl (e, w')"
      by (simp add: logApiCall_try_def)
    from write_entry_Inl[OF this] show ?thesis by simp
  qed
qed

lemma logApiCall_try_Inr:
  assumes "logApiCall_try P a w = Inr w'"
  shows "console w' = console w \<and> clock w' = clock w \<and> faults w' = faults w
         \<and> (dirs w' = dirs w \<or> dirs w' = API_LOGS_PATH P # dirs w)
         \<and> (\<exists>ms. files w' = append_file (files w) (log_path P w) (JSON_text P (JObj ms) @ NL) (clock w)
               \<and> (''statusCode'' \<in> fst ` set ms \<longrightarrow> truthy (statusCode a) \<or> truthy (response a))
               \<and> (''responseBody'' \<in> fst ` set ms \<longrightarrow> truthy (responseBody a))
               \<and> (''error'' \<in> fst ` set ms \<longleftrightarrow>
                    truthy (error a) \<and> typeof (error a) \<noteq> ''function'' \<and> typeof (error a) \<noteq> ''symbol''))"
proof -
  obtain hdrs h1 where s1: "sanitizeData (store w) (headers a) = (hdrs, h1)"
    by (cases "sanitizeData (store w) (headers a)")
  obtain bdy h2 where s2: "sanitizeData h1 (body a) = (bdy, h2)"
    by (cases "sanitizeData h1 (body a)")
  from assms s1 s2 obtain rhdrs h3 where s3: "response_headers h2 (response a) = Inr (rhdrs, h3)"
    by (auto simp: logApiCall_try_def split: sum.splits)
  obtain rbody h4 where s4:
    "(if truthy (responseBody a) then sanitizeData h3 (responseBody a) else (Undefined, h3)) = (rbody, h4)"
    by (cases "(if truthy (responseBody a) then sanitizeData h3 (responseBody a) else (Undefined, h3))")
  obtain err h5 where s5: "error_field h4 (error a) = (err, h5)"
    by (cases "error_field h4 (error a)")
  define status where "status = status_field h4 a"
  obtain props where props: "log_entry P a w hdrs bdy rhdrs rbody status err = HObj props"
    and p1: "(''statusCode'', v) \<in> set props \<longleftrightarrow> v = status"
    and p2: "(''responseBody'', v) \<in> set props \<longleftrightarrow> v = rbody"
    and p3: "(''error'', v) \<in> set props \<longleftrightarrow> v = err" for v
    by (auto simp: log_entry_def)
  define w1 where "w1 = w\<lparr>uuids := Suc (uuids w), store := h5 @ [HObj props]\<rparr>"
  from assms s1 s2 s3 s4 s5 have we: "write_entry P (length h5) w1 = Inr w'"
    by (simp add: logApiCall_try_def w1_def props[unfolded status_def])
  have st: "store w1 = h5 @ [HObj props]" by (simp add: w1_def)
  from write_entry_Inr[OF we st] obtain ms where
    a: "console w' = console w1" "clock w' = clock w1" "faults w' = faults w1"
       "dirs w' = dirs w1 \<or> dirs w' = API_LOGS_PATH P # dirs w1"
    and f: "files w' = append_file (files w1) (log_path P w1) (JSON_text P (JObj ms) @ NL) (clock w1)"
    and sp: "serialize_props (h5 @ [HObj props]) [length h5] props = Inr ms" by auto
  note keys = serialize_props_keys[OF sp]
  have lp': "log_path P w1 = log_path P w" by (simp add: log_path_def getCurrentDate_def w1_def)
  have k1: "truthy (statusCode a) \<or> truthy (response a)" if "''statusCode'' \<in> fst ` set ms"
  proof (rule ccontr)
    assume "\<not> ?thesis"
    then have "status = Undefined" by (simp add: status_def status_field_def)
    with that keys p1 show False by auto
  qed
  have k2: "truthy (responseBody a)" if "''responseBody'' \<in> fst ` set ms"
  proof (rule ccontr)
    assume "\<not> ?thesis"
    with s4 have "rbody = Undefined" by simp
    with that keys p2 show False by auto
  qed
  have k3: "''error'' \<in> fst ` set ms \<longleftrightarrow>
              truthy (error a) \<and> typeof (error a) \<noteq> ''function'' \<and> typeof (error a) \<noteq> ''symbol''"
  proof -
    have m: "(''error'', err) \<in> set props" by (simp add: p3)
    from serialize_props_all_Inr[OF sp this] obtain r' where
      r': "serialize (h5 @ [HObj props]) [length h5] err = Inr r'" by auto
    have "''error'' \<in> fst ` set ms \<longleftrightarrow> r' \<noteq> None"
      using keys r' p3 by auto
    with error_field_serial[OF s5 r'] show ?thesis by simp
  qed
  from a f lp' k1 k2 k3 show ?thesis
    by (auto simp: w1_def)
qed

lemma logApiCall_effect:
  "\<exists>w'. logApiCall P a w = Inr w' \<and> clock w' = clock w \<and> faults w' = faults w
     \<and> (dirs w' = dirs w \<or> dirs w' = API_LOGS_PATH P # dirs w)
     \<and> ((console w' = console w
          \<and> (\<exists>ms. files w' = append_file (files w) (log_path P w) (JSON_text P (JObj ms) @ NL) (clock w)
               \<and> (''statusCode'' \<in> fst ` set ms \<longrightarrow> truthy (statusCode a) \<or> truthy (response a))
               \<and> (''responseBody'' \<in> fst ` set ms \<longrightarrow> truthy (responseBody a))
               \<and> (''error'' \<in> fst ` set ms \<longleftrightarrow>
                    truthy (error a) \<and> typeof (error a) \<noteq> ''function'' \<and> typeof (error a) \<noteq> ''symbol'')))
        \<or> (files w' = files w \<and> (\<exists>e. console w' = console w @ [(''Error writing API log:'', e)])))"
proof (cases "logApiCall_try P a w")
  case (Inl x)
  obtain e w1 where x: "x = (e, w1)" by (cases x)
  from logApiCall_try_Inl[OF Inl[unfolded x]] Inl x show ?thesis
    by (auto simp: logApiCall_def console_error_def)
next
  case (Inr w1)
  from logApiCall_try_Inr[OF Inr] Inr show ?thesis
    by (simp add: logApiCall_def)
qed

text \<open>
  C3. \<^verbatim>\<open>logApiCall\<close> never raises: for every argument and every world it returns
  normally. Either the line of the entry is appended to the log file of the day and nothing
  is printed, or the failure (of the directory creation, of the serialization, of the append)
  is printed once with \<^verbatim>\<open>console.error\<close> and no file changes. In both cases the logs
  directory may have been created: it is created before the entry is serialized and
  appended.
\<close>

theorem logApiCall_never_raises:
  "\<exists>w'. logApiCall P a w = Inr w'
     \<and> (dirs w' = dirs w \<or> dirs w' = API_LOGS_PATH P # dirs w)
     \<and> ((console w' = console w
          \<and> (\<exists>ms. files w' = append_file (files w) (log_path P w) (JSON_text P (JObj ms) @ NL) (clock w)))
        \<or> (files w' = files w \<and> (\<exists>e. console w' = console w @ [(''Error writing API log:'', e)])))"
  using logApiCall_effect[of P a w] by blast

theorem logApiCall_never_raises_witness:
  "\<exists>w'. logApiCall plain_platform blank_args empty_world = Inr w'
     \<and> console w' = []
     \<and> files w' = [(''/cache/project/api-logs/api-log-2025-01-15.jsonl'',
           \<lparr>content = json_text (JObj [(''timestamp'', JStr ''T+0''), (''id'', JStr ''uuid-0''),
                 (''service'', JStr ''unknown''), (''url'', JStr ''https://example.com/''),
                 (''method'', JStr ''GET''), (''durationMs'', JNum 1)]) @ NL,
             birthtime = 0\<rparr>)]"
proof -
  from logApiCall_never_raises[of plain_platform blank_args empty_world]
  obtain w' where w': "logApiCall plain_platform blank_args empty_world = Inr w'" by blast
  have "console (projr (logApiCall plain_platform blank_args empty_world)) = []"
    by code_simp
  moreover have "files (projr (logApiCall plain_platform blank_args empty_world))
     = [(''/cache/project/api-logs/api-log-2025-01-15.jsonl'',
           \<lparr>content = json_text (JObj [(''timestamp'', JStr ''T+0''), (''id'', JStr ''uuid-0''),
                 (''service'', JStr ''unknown''), (''url'', JStr ''https://example.com/''),
                 (''method'', JStr ''GET''), (''durationMs'', JNum 1)]) @ NL,
             birthtime = 0\<rparr>)]"
    by code_simp
  ultimately show ?thesis using w' by simp
qed

text \<open>
  The claim as stated fails: with an \<^verbatim>\<open>error\<close> that is a plain object referring to itself
  and no logs directory yet, the serialization of the entry throws, the failure is printed,
  and the directory has been created all the same.
\<close>

theorem logApiCall_effect_counterexample:
  "\<not> isl (logApiCall plain_platform (blank_args\<lparr>error := Ref 0\<rparr>)
            (empty_world\<lparr>store := [HObj [(''self'', Ref 0)]]\<rparr>))
   \<and> console (projr (logApiCall plain_platform (blank_args\<lparr>error := Ref 0\<rparr>)
            (empty_world\<lparr>store := [HObj [(''self'', Ref 0)]]\<rparr>)))
       = [(''Error writing API log:'', TypeError ''Converting circular structure to JSON'')]
   \<and> dirs (empty_world\<lparr>store := [HObj [(''self'', Ref 0)]]\<rparr>) = []
   \<and> dirs (projr (logApiCall plain_platform (blank_args\<lparr>error := Ref 0\<rparr>)
            (empty_world\<lparr>store := [HObj [(''self'', Ref 0)]]\<rparr>)))
       = [''/cache/project/api-logs'']"
  by code_simp

subsection \<open>Serialization in a larger store\<close>




subsection \<open>The sanitizer keeps the store well formed\<close>











subsection \<open>When the entry is written\<close>




















subsection \<open>The wrappers rethrow and log\<close>




















section \<open>Verification of the inspection command\<close>

subsection \<open>Reading a log file back\<close>

text \<open>
  The text of a file whose lines are \<open>ls\<close>: the lines with one newline between them. A file
  that ends in a newline, as every file the logger writes does, has the empty string as its
  last line. Every text is the text of its own lines, so a statement about every
  \<open>join_lines ls\<close> is a statement about every file.
\<close>

fun join_lines :: "string list \<Rightarrow> string" where
  "join_lines [] = []"
| "join_lines [l] = l"
| "join_lines (l # l' # ls) = l @ NL @ join_lines (l' # ls)"

lemma split_on_line: "c \<notin> set l \<Longrightarrow> split_on c (l @ c # rest) = l # split_on c rest"
  by (induction l) auto

lemma split_on_no_separator: "c \<notin> set l \<Longrightarrow> split_on c l = [l]"
  by (induction l) auto

lemma split_on_nonempty: "split_on c s \<noteq> []"
  by (induction s) (auto split: list.splits)

lemma split_on_join:
  "ls \<noteq> [] \<Longrightarrow> \<forall>l \<in> set ls. CHR 0x0A \<notin> set l \<Longrightarrow>
     split_on (CHR 0x0A) (join_lines ls) = ls"
proof (induction ls rule: join_lines.induct)
  case 1
  then show ?case by simp
next
  case (2 l)
  then show ?case by (simp add: split_on_no_separator)
next
  case (3 l l' ls)
  then show ?case by (simp add: NL_def split_on_line)
qed

lemma join_split_on: "join_lines (split_on (CHR 0x0A) s) = s"
proof (induction s)
  case Nil
  then show ?case by simp
next
  case (Cons x xs)
  obtain p ps where sp: "split_on (CHR 0x0A) xs = p # ps"
    using split_on_nonempty[of "CHR 0x0A" xs] by (cases "split_on (CHR 0x0A) xs") auto
  show ?case
  proof (cases "x = CHR 0x0A")
    case True
    then show ?thesis using Cons sp by (simp add: NL_def)
  next
    case False
    have "join_lines ((x # p) # ps) = x # join_lines (p # ps)" by (cases ps) auto
    then show ?thesis using Cons sp False by simp
  qed
qed

lemma join_lines_terminated: "join_lines (ls @ [[]]) = concat (map (\<lambda>l. l @ NL) ls)"
  by (induction ls rule: join_lines.induct) auto

lemma read_back_lines:
  assumes "ls \<noteq> []" and "\<forall>l \<in> set ls. CHR 0x0A \<notin> set l"
  shows "read_entries P (join_lines ls)
     = map (\<lambda>l. case JSON_parse P l of Some d \<Rightarrow> d | None \<Rightarrow> JObj [(''raw'', JStr l)])
         (filter (\<lambda>l. l \<noteq> []) ls)"
  using split_on_join[OF assms] by (simp add: read_entries_def)

lemma format_raw: "l \<noteq> [] \<Longrightarrow> formatAndDisplayLogEntry P (JObj [(''raw'', JStr l)]) = Inr l"
  by (simp add: formatAndDisplayLogEntry_def truthy_prop_def the_prop_def jget_def)

text \<open>
  C6. Reading back a file whose lines are \<open>ls\<close> gives, in the order of the file, one record
  for every line that is not empty: the parsed document when the line is valid JSON, and
  otherwise the record \<^verbatim>\<open>{ raw: line }\<close> with the text of the line, character for character,
  which the formatter renders as that text.
\<close>

theorem read_entries_lines:
  "ls \<noteq> [] \<and> (\<forall>l \<in> set ls. CHR 0x0A \<notin> set l) \<longrightarrow>
     read_entries P (join_lines ls)
       = map (\<lambda>l. case JSON_parse P l of Some d \<Rightarrow> d | None \<Rightarrow> JObj [(''raw'', JStr l)])
           (filter (\<lambda>l. l \<noteq> []) ls)
     \<and> (\<forall>l \<in> set ls. l \<noteq> [] \<and> JSON_parse P l = None \<longrightarrow>
           formatAndDisplayLogEntry P (JObj [(''raw'', JStr l)]) = Inr l)"
  using read_back_lines[of ls P] format_raw[of _ P] by blast

theorem read_entries_lines_witness:
  "read_entries plain_platform (join_lines [''{}'', ''not json {'', [], ''42'', []])
     = [JObj [], JObj [(''raw'', JStr ''not json {'')], JNum 42]
   \<and> formatAndDisplayLogEntry plain_platform (JObj [(''raw'', JStr ''not json {'')]) = Inr ''not json {''"
proof -
  have a: "\<forall>l \<in> set [''{}'', ''not json {'', [], ''42'', []]. CHR 0x0A \<notin> set l" by simp
  have b: "JSON_parse plain_platform ''not json {'' = None" by code_simp
  have c: "map (\<lambda>l. case JSON_parse plain_platform l of Some d \<Rightarrow> d | None \<Rightarrow> JObj [(''raw'', JStr l)])
           (filter (\<lambda>l. l \<noteq> []) [''{}'', ''not json {'', [], ''42'', []])
          = [JObj [], JObj [(''raw'', JStr ''not json {'')], JNum 42]" by code_simp
  from read_entries_lines[of "[''{}'', ''not json {'', [], ''42'', []]" plain_platform] a b c
  show ?thesis by simp
qed

subsection \<open>A count that is not a number\<close>

lemma entriesToShow_NaN: "entriesToShow NaN es = es"
  by (simp add: entriesToShow_def num_gt_def)

text \<open>
  C10. When the count \<open>n\<close> given to \<^verbatim>\<open>view\<close> or \<^verbatim>\<open>tail\<close> does not parse as a number, the
  command passes \<^verbatim>\<open>NaN\<close> on, the test \<^verbatim>\<open>numLines > 0\<close> is false, the entries to show are
  all the entries, and a file that exists, can be read and has entries is displayed with every
  entry rendered.
\<close>

theorem nan_shows_all_entries:
  assumes "parseInt n = NaN"
  shows "(words_of args = ''view'' # f # n # rest \<longrightarrow>
            apilogs_call P args answer w = (viewLogFile P f (parseInt n) w, w))
       \<and> (words_of args = ''tail'' # n # rest \<longrightarrow>
            apilogs_call P args answer w = (tailLogs P (parseInt n) w, w))
       \<and> entriesToShow (parseInt n) es = es
       \<and> (existsSync w p \<and> readFileSync p w = Inr fileContent \<and> read_entries P fileContent \<noteq> [] \<longrightarrow>
            viewLogFile_try P p (parseInt n) w
              = render_entries P (chalk P ''bold'' (''Log File: '' @ path_basename p @ NL @ NL))
                  (read_entries P fileContent))"
  using assms
  by (auto simp: apilogs_call_def entriesToShow_NaN viewLogFile_try_def)

theorem nan_shows_all_entries_witness:
  "parseInt ''abc'' = NaN
   \<and> words_of ''view api-log-2025-01-15 abc'' = [''view'', ''api-log-2025-01-15'', ''abc'']
   \<and> fst (apilogs_call plain_platform ''view api-log-2025-01-15 abc'' [] logs_world)
       = ''Log File: api-log-2025-01-15.jsonl'' @ NL @ NL
         @ ''first'' @ NL @ NL @ ''second'' @ NL @ NL @ ''third'' @ NL @ NL
   \<and> words_of ''tail abc'' = [''tail'', ''abc'']
   \<and> fst (apilogs_call plain_platform ''tail abc'' [] logs_world)
       = ''Log File: api-log-2025-01-15.jsonl'' @ NL @ NL
         @ ''first'' @ NL @ NL @ ''second'' @ NL @ NL @ ''third'' @ NL @ NL
   \<and> fst (apilogs_call plain_platform ''tail 1'' [] logs_world)
       = ''Log File: api-log-2025-01-15.jsonl'' @ NL @ NL @ ''third'' @ NL @ NL"
proof -
  have a: "parseInt ''abc'' = NaN" by code_simp
  have b: "words_of ''view api-log-2025-01-15 abc'' = ''view'' # ''api-log-2025-01-15'' # ''abc'' # []"
    by code_simp
  have c: "words_of ''tail abc'' = ''tail'' # ''abc'' # []" by code_simp
  from nan_shows_all_entries[OF a, of "''view api-log-2025-01-15 abc''" "''api-log-2025-01-15''" "[]"
          plain_platform "[]" logs_world] b
  have d: "apilogs_call plain_platform ''view api-log-2025-01-15 abc'' [] logs_world
     = (viewLogFile plain_platform ''api-log-2025-01-15'' (parseInt ''abc'') logs_world, logs_world)"
    by blast
  from nan_shows_all_entries[OF a, of "''tail abc''" "''api-log-2025-01-15''" "[]"
          plain_platform "[]" logs_world] c
  have e: "apilogs_call plain_platform ''tail abc'' [] logs_world
     = (tailLogs plain_platform (parseInt ''abc'') logs_world, logs_world)"
    by blast
  have f: "viewLogFile plain_platform ''api-log-2025-01-15'' NaN logs_world
       = ''Log File: api-log-2025-01-15.jsonl'' @ NL @ NL
         @ ''first'' @ NL @ NL @ ''second'' @ NL @ NL @ ''third'' @ NL @ NL"
    by code_simp
  have g: "tailLogs plain_platform NaN logs_world
       = ''Log File: api-log-2025-01-15.jsonl'' @ NL @ NL
         @ ''first'' @ NL @ NL @ ''second'' @ NL @ NL @ ''third'' @ NL @ NL"
    by code_simp
  have h: "fst (apilogs_call plain_platform ''tail 1'' [] logs_world)
       = ''Log File: api-log-2025-01-15.jsonl'' @ NL @ NL @ ''third'' @ NL @ NL"
    by code_simp
  from a b c d e f g h show ?thesis by simp
qed

subsection \<open>Clearing the logs\<close>

lemma lower_char_y:
  "(case map_of (zip upper_chars lower_chars) c of None \<Rightarrow> c | Some l \<Rightarrow> l) = CHR ''y''
     \<longleftrightarrow> c = CHR ''y'' \<or> c = CHR ''Y''"
  by (auto simp: upper_chars_def lower_chars_def split: if_splits)

lemma toLowerCase_y: "toLowerCase s = ''y'' \<longleftrightarrow> s = ''y'' \<or> s = ''Y''"
proof (cases s)
  case Nil
  then show ?thesis by (simp add: toLowerCase_def)
next
  case (Cons c cs)
  then show ?thesis using lower_char_y[of c]
    by (cases cs) (auto simp: toLowerCase_def)
qed

lemma clearLogs_cancel:
  "answer \<noteq> ''y'' \<Longrightarrow> answer \<noteq> ''Y'' \<Longrightarrow>
     clearLogs P answer w = (chalk P ''yellow'' ''Operation cancelled'', w)"
  by (simp add: clearLogs_def toLowerCase_y)

text \<open>The paths of the log files of the logs directory.\<close>

definition log_paths :: "platform \<Rightarrow> world \<Rightarrow> string set" where
  "log_paths P w =
     path_join (API_LOGS_PATH P) ` set (filter is_log_name (dir_entries w (API_LOGS_PATH P)))"

lemma path_join_inj: "path_join d f = path_join d g \<longleftrightarrow> f = g"
  by (simp add: path_join_def)

lemma delete_logs_ok:
  assumes "\<forall>op. \<not> faults w op" "distinct names"
    and "\<forall>f \<in> set names. is_log_name f \<longrightarrow> path_join (API_LOGS_PATH P) f \<in> fst ` set (files w)"
  shows "delete_logs P names n w
     = Inr (n + length (filter is_log_name names),
            w\<lparr>files := filter (\<lambda>x. fst x \<notin> path_join (API_LOGS_PATH P) ` set (filter is_log_name names))
                          (files w)\<rparr>)"
  using assms
proof (induction names arbitrary: n w)
  case Nil
  then show ?case by simp
next
  case (Cons f fs)
  show ?case
  proof (cases "is_log_name f")
    case False
    with Cons.IH[of w n] Cons.prems show ?thesis
      by (simp add: is_log_name_def)
  next
    case True
    let ?p = "path_join (API_LOGS_PATH P) f"
    let ?w = "w\<lparr>files := filter (\<lambda>x. fst x \<noteq> ?p) (files w)\<rparr>"
    have u: "unlinkSync ?p w = Inr ?w"
      using Cons.prems(1,3) True by (simp add: unlinkSync_def)
    have 1: "\<forall>op. \<not> faults ?w op" using Cons.prems(1) by simp
    have 2: "distinct fs" using Cons.prems(2) by simp
    have 3: "\<forall>g \<in> set fs. is_log_name g \<longrightarrow> path_join (API_LOGS_PATH P) g \<in> fst ` set (files ?w)"
    proof (intro ballI impI)
      fix g assume g: "g \<in> set fs" "is_log_name g"
      then have "g \<noteq> f" using Cons.prems(2) by auto
      then have "path_join (API_LOGS_PATH P) g \<noteq> ?p" by (simp add: path_join_inj)
      moreover have "path_join (API_LOGS_PATH P) g \<in> fst ` set (files w)"
        using Cons.prems(3) g by simp
      ultimately show "path_join (API_LOGS_PATH P) g \<in> fst ` set (files ?w)" by auto
    qed
    have "filter (\<lambda>x. fst x \<notin> path_join (API_LOGS_PATH P) ` set (filter is_log_name fs))
            (filter (\<lambda>x. fst x \<noteq> ?p) (files w))
        = filter (\<lambda>x. fst x \<notin> path_join (API_LOGS_PATH P) ` set (filter is_log_name (f # fs)))
            (files w)"
      using True by (auto intro: filter_cong)
    with Cons.IH[OF 1 2 3, of "n + 1"] u True show ?thesis
      by (simp add: is_log_name_def)
  qed
qed

lemma dir_entries_path:
  "f \<in> set (dir_entries w d) \<Longrightarrow> path_join d f \<in> fst ` set (files w)"
proof -
  assume "f \<in> set (dir_entries w d)"
  then obtain x where x: "x \<in> set (files w)" "startsWith (fst x) (d @ ''/'')"
    "f = drop (Suc (length d)) (fst x)"
    by (auto simp: dir_entries_def)
  from x(2) obtain r where "fst x = (d @ ''/'') @ r" by (auto simp: startsWith_def prefix_def)
  with x(3) have "path_join d f = fst x" by (simp add: path_join_def)
  with x(1) show ?thesis by force
qed

lemma dir_entries_distinct:
  assumes "distinct (map fst (files w))"
  shows "distinct (dir_entries w d)"
proof -
  have inj: "inj_on (\<lambda>x. drop (Suc (length d)) (fst x))
     (set (filter (\<lambda>x. startsWith (fst x) (d @ ''/'') \<and> CHR ''/'' \<notin> set (drop (Suc (length d)) (fst x)))
       (files w)))"
  proof (rule inj_onI)
    fix x y
    assume x: "x \<in> set (filter (\<lambda>x. startsWith (fst x) (d @ ''/'') \<and> CHR ''/'' \<notin> set (drop (Suc (length d)) (fst x))) (files w))"
      and y: "y \<in> set (filter (\<lambda>x. startsWith (fst x) (d @ ''/'') \<and> CHR ''/'' \<notin> set (drop (Suc (length d)) (fst x))) (files w))"
      and e: "drop (Suc (length d)) (fst x) = drop (Suc (length d)) (fst y)"
    from x obtain r where r: "fst x = (d @ ''/'') @ r" by (auto simp: startsWith_def prefix_def)
    from y obtain s where s: "fst y = (d @ ''/'') @ s" by (auto simp: startsWith_def prefix_def)
    from e r s have "fst x = fst y" by simp
    with x y assms show "x = y" by (auto simp: distinct_map inj_on_def)
  qed
  have "distinct (filter (\<lambda>x. startsWith (fst x) (d @ ''/'') \<and> CHR ''/'' \<notin> set (drop (Suc (length d)) (fst x)))
       (files w))"
    using assms by (simp add: distinct_map)
  with inj show ?thesis unfolding dir_entries_def by (simp add: distinct_map)
qed

lemma clearLogs_confirm:
  assumes "answer = ''y'' \<or> answer = ''Y''" "\<forall>op. \<not> faults w op"
    "API_LOGS_PATH P \<in> set (dirs w)" "distinct (map fst (files w))"
  shows "clearLogs P answer w
     = (chalk P ''green'' (''Successfully deleted ''
           @ show_nat (length (filter is_log_name (dir_entries w (API_LOGS_PATH P)))) @ '' log files''),
        w\<lparr>files := filter (\<lambda>x. fst x \<notin> log_paths P w) (files w)\<rparr>)"
proof -
  have r: "readdirSync (API_LOGS_PATH P) w = Inr (dir_entries w (API_LOGS_PATH P))"
    using assms(2,3) by (simp add: readdirSync_def)
  have d: "delete_logs P (dir_entries w (API_LOGS_PATH P)) 0 w
     = Inr (0 + length (filter is_log_name (dir_entries w (API_LOGS_PATH P))),
            w\<lparr>files := filter (\<lambda>x. fst x \<notin> log_paths P w) (files w)\<rparr>)"
    unfolding log_paths_def
    by (rule delete_logs_ok) (use assms dir_entries_distinct dir_entries_path in auto)
  from assms(1) r d show ?thesis
    by (simp add: clearLogs_def toLowerCase_y)
qed

text \<open>
  C8. For every answer other than \<^verbatim>\<open>y\<close> and \<^verbatim>\<open>Y\<close>, \<^verbatim>\<open>clearLogs\<close> returns the
  cancellation message and leaves the world, so every file, as it is. Only the answers
  \<^verbatim>\<open>y\<close> and \<^verbatim>\<open>Y\<close> delete: when no operation of the file system fails, exactly the files
  of the logs directory whose names end in \<^verbatim>\<open>.log\<close> or \<^verbatim>\<open>.jsonl\<close> are removed, and their
  number is reported.
\<close>

theorem clearLogs_confirmation:
  "(answer \<noteq> ''y'' \<and> answer \<noteq> ''Y'' \<longrightarrow>
      clearLogs P answer w = (chalk P ''yellow'' ''Operation cancelled'', w))
   \<and> ((answer = ''y'' \<or> answer = ''Y'') \<and> (\<forall>op. \<not> faults w op)
        \<and> API_LOGS_PATH P \<in> set (dirs w) \<and> distinct (map fst (files w)) \<longrightarrow>
      clearLogs P answer w
        = (chalk P ''green'' (''Successfully deleted ''
              @ show_nat (length (filter is_log_name (dir_entries w (API_LOGS_PATH P))))
              @ '' log files''),
           w\<lparr>files := filter (\<lambda>x. fst x \<notin> log_paths P w) (files w)\<rparr>))"
  using clearLogs_cancel[of answer P w] clearLogs_confirm[of answer w P] by blast

theorem clearLogs_confirmation_witness:
  "clearLogs plain_platform ''no'' logs_world = (''Operation cancelled'', logs_world)
   \<and> fst (clearLogs plain_platform ''Y'' logs_world) = ''Successfully deleted 1 log files''
   \<and> map fst (files (snd (clearLogs plain_platform ''Y'' logs_world)))
       = [''/cache/project/api-logs/notes.txt'']"
proof -
  have a: "\<forall>op. \<not> faults logs_world op" by (simp add: logs_world_def empty_world_def)
  have b: "API_LOGS_PATH plain_platform \<in> set (dirs logs_world)"
    by code_simp
  have c: "distinct (map fst (files logs_world))" by (simp add: logs_world_def)
  have d: "chalk plain_platform ''yellow'' ''Operation cancelled'' = ''Operation cancelled''"
    by (simp add: plain_platform_def)
  from clearLogs_confirmation[of "''no''" plain_platform logs_world] d
  have e: "clearLogs plain_platform ''no'' logs_world = (''Operation cancelled'', logs_world)"
    by simp
  from clearLogs_confirmation[of "''Y''" plain_platform logs_world] a b c
  have f: "files (snd (clearLogs plain_platform ''Y'' logs_world))
       = filter (\<lambda>x. fst x \<notin> log_paths plain_platform logs_world) (files logs_world)"
    by simp
  have g: "fst (clearLogs plain_platform ''Y'' logs_world) = ''Successfully deleted 1 log files''"
    by code_simp
  have h: "map fst (files (snd (clearLogs plain_platform ''Y'' logs_world)))
       = [''/cache/project/api-logs/notes.txt'']"
    by code_simp
  from e f g h show ?thesis by simp
qed

subsection \<open>Formatting an entry that the writer wrote\<close>

text \<open>
  C4. The formatter reads the method, the URL, the headers and the body of an entry from a
  property \<^verbatim>\<open>request\<close>, the status and the response body from a property \<^verbatim>\<open>response\<close>,
  and the duration from \<^verbatim>\<open>responseTime\<close>. The writer puts them in the entry itself, as
  \<^verbatim>\<open>method\<close>, \<^verbatim>\<open>url\<close>, \<^verbatim>\<open>headers\<close>, \<^verbatim>\<open>body\<close>, \<^verbatim>\<open>statusCode\<close>, \<^verbatim>\<open>responseBody\<close> and
  \<^verbatim>\<open>durationMs\<close>. So for the entry that the interceptor writes for an answered call, whatever
  the platform, the formatter renders the timestamp and the service name and nothing else:
  no method, no path, no headers, no body, no status.
\<close>

theorem format_written_entry:
  "map (\<lambda>f. content (snd f))
     (files (snd (projr (loggedFetch plain_platform answering_fetch example_request empty_world))))
     = [json_text written_entry @ NL]
   \<and> formatAndDisplayLogEntry P written_entry
       = Inr (chalk P ''gray'' (''['' @ toLocaleString P (JStr ''T+12'') @ ''] '')
              @ chalk P ''bold.blue'' ''anthropic '')"
proof -
  have "map (\<lambda>f. content (snd f))
     (files (snd (projr (loggedFetch plain_platform answering_fetch example_request empty_world))))
     = [json_text written_entry @ NL]"
    by code_simp
  moreover have "formatAndDisplayLogEntry P written_entry
       = Inr (chalk P ''gray'' (''['' @ toLocaleString P (JStr ''T+12'') @ ''] '')
              @ chalk P ''bold.blue'' ''anthropic '')"
    by (simp add: formatAndDisplayLogEntry_def format_request_def format_response_def
          format_error_def written_entry_def truthy_prop_def the_prop_def jget_def)
  ultimately show ?thesis by simp
qed

theorem format_written_entry_witness:
  "formatAndDisplayLogEntry plain_platform written_entry = Inr ''[T+12] anthropic ''"
  using format_written_entry[of plain_platform]
  by (simp add: plain_platform_def)


end
